(* ===== verification/Prelude.thy ===== *)
theory Prelude
  imports Main "HOL-Library.Word"
begin

text \<open>
  Shared vocabulary of the development: the named theorem collections the component
  theories fill, the character abbreviations of the C sources (tab, newline, NUL), and
  generic lemmas on lists and association lists that the codec, the cached-file backend
  and the relational backend all use.
\<close>

named_theorems cstr_simps "evaluation rules of the C string and number helpers"
named_theorems codec_simps "evaluation rules of the account record codec"
named_theorems sql_simps "evaluation rules of the relational store"

abbreviation TAB :: char where "TAB \<equiv> CHR 0x09"
abbreviation NL :: char where "NL \<equiv> CHR 0x0A"
abbreviation NUL :: char where "NUL \<equiv> CHR 0x00"

type_synonym cstring = string

subsection \<open>Lists\<close>

lemma takeWhile_append_stop [simp]:
  "\<forall>x\<in>set xs. P x \<Longrightarrow> \<not> P c \<Longrightarrow> takeWhile P (xs @ c # ys) = xs"
  by (induction xs) auto

lemma dropWhile_append_stop [simp]:
  "\<forall>x\<in>set xs. P x \<Longrightarrow> \<not> P c \<Longrightarrow> dropWhile P (xs @ c # ys) = c # ys"
  by (induction xs) auto

lemma takeWhile_all_eq:
  "\<forall>x\<in>set xs. P x \<Longrightarrow> takeWhile P xs = xs"
  by (induction xs) auto

lemma take_append_exact [simp]:
  "take (length xs) (xs @ ys) = xs"
  by simp

lemma drop_append_exact [simp]:
  "drop (length xs) (xs @ ys) = ys"
  by simp

lemma filter_empty_iff_all:
  "filter P xs = [] \<longleftrightarrow> (\<forall>x\<in>set xs. \<not> P x)"
  by (induction xs) auto

lemma set_dropWhile_cover: "c \<in> set xs \<Longrightarrow> P c \<or> c \<in> set (dropWhile P xs)"
  by (induction xs) auto

lemma set_take_drop_cover: "c \<in> set xs \<Longrightarrow> c \<in> set (take n xs) \<or> c \<in> set (drop n xs)"
  by (metis Un_iff append_take_drop_id set_append)

lemma last_NL_unique:
  assumes "NL \<notin> set rest" "rest @ [NL] = p @ NL # t"
  shows "t = []"
proof (rule ccontr)
  assume "t \<noteq> []"
  then have "butlast (p @ NL # t) = p @ NL # butlast t" by (simp add: butlast_append)
  with assms have "rest = p @ NL # butlast t" by (metis butlast_snoc)
  with assms(1) show False by simp
qed

subsection \<open>Association lists\<close>

lemma map_of_filter_key:
  "map_of (filter (\<lambda>p. fst p \<noteq> k) xs) = (map_of xs)(k := None)"
  by (induction xs) (auto simp: fun_eq_iff)

lemma map_of_eq_None_iff_keys:
  "map_of xs k = None \<longleftrightarrow> k \<notin> fst ` set xs"
  by (simp add: map_of_eq_None_iff)

lemma distinct_keys_filter:
  "distinct (map fst xs) \<Longrightarrow> distinct (map fst (filter P xs))"
  by (induction xs) auto

lemma find_snoc_None: "find P xs = None \<Longrightarrow> P x \<Longrightarrow> find P (xs @ [x]) = Some x"
  by (induction xs) auto

end
