(* ===== verification/CLib.thy ===== *)
theory CLib
  imports Prelude
begin

text \<open>
  The C library routines and the eAthena helpers (common/strlib.c) that the two backends
  call, modelled at the formats the sources use: the character classes of ctype.h,
  the numeric prefix read by \<open>sscanf("%d")\<close>, \<open>strtol\<close> and \<open>atoi\<close>, decimal output
  of \<open>printf("%d")\<close> and \<open>printf("%u")\<close>, \<open>safestrncpy\<close>, the tab splitter
  \<open>sv_split\<close> with \<open>SV_NOESCAPE_NOTERMINATE\<close>, and \<open>fgets\<close> on the 2048-byte line
  buffer of \<open>account_db_txt_init\<close>. None of this code is under src/: it is modelled from
  the C standard and from the spec. The C integer types are those of the LP64 platform
  the servers run on: \<open>int\<close> has 32 bits and \<open>long\<close> (and \<open>time_t\<close>) 64. Their values are
  HOL integers within the type's range; \<open>strtol\<close> saturates at the \<open>long\<close> limits, and a
  value stored into an \<open>int\<close> (a conversion, or signed arithmetic that leaves the range)
  is reduced modulo \<open>2^32\<close> into it (\<open>int32\<close>), as the compiled code does.
\<close>

text \<open>\<open>NAME_LENGTH\<close> of common/mmo.h: the size of a name buffer, shared by accounts and parties.\<close>

definition NAME_LENGTH :: nat where "NAME_LENGTH = 24"

subsection \<open>C integer types\<close>

definition INT_MIN :: int where "INT_MIN = - (2 ^ 31)"
definition INT_MAX :: int where "INT_MAX = 2 ^ 31 - 1"
definition LONG_MIN :: int where "LONG_MIN = - (2 ^ 63)"
definition LONG_MAX :: int where "LONG_MAX = 2 ^ 63 - 1"
definition ULONG_MAX :: int where "ULONG_MAX = 2 ^ 64 - 1"

text \<open>The values an \<open>int\<close> and a \<open>long\<close> can hold.\<close>

definition c_int :: "int \<Rightarrow> bool" where
  "c_int x \<longleftrightarrow> INT_MIN \<le> x \<and> x \<le> INT_MAX"

definition c_long :: "int \<Rightarrow> bool" where
  "c_long x \<longleftrightarrow> LONG_MIN \<le> x \<and> x \<le> LONG_MAX"

text \<open>
  A value stored into an \<open>int\<close>: reduced modulo \<open>2^32\<close> into \<open>INT_MIN..INT_MAX\<close>. This is
  gcc's conversion of a \<open>long\<close> to \<open>int\<close>, and what the two's-complement instructions
  compute for \<open>x + 1\<close> and \<open>x - 1\<close> at the ends of the range (signed overflow, which the C
  standard leaves undefined).
\<close>

definition int32 :: "int \<Rightarrow> int" where
  "int32 x = (x + 2 ^ 31) mod 2 ^ 32 - 2 ^ 31"

definition sat_long :: "int \<Rightarrow> int" where
  "sat_long x = max LONG_MIN (min LONG_MAX x)"

subsection \<open>Character classes\<close>

definition c_isspace :: "char \<Rightarrow> bool" where
  "c_isspace c \<longleftrightarrow> c = CHR '' '' \<or> c = TAB \<or> c = NL \<or> c = CHR 0x0B \<or> c = CHR 0x0C \<or> c = CHR 0x0D"

definition c_isdigit :: "char \<Rightarrow> bool" where
  "c_isdigit c \<longleftrightarrow> 48 \<le> (of_char c :: nat) \<and> (of_char c :: nat) \<le> 57"

definition digit_char :: "nat \<Rightarrow> char" where
  "digit_char d = char_of (48 + d)"

subsection \<open>Decimal input: \<open>sscanf("%d")\<close>, \<open>strtol\<close>, \<open>atoi\<close>\<close>

definition digits_value :: "string \<Rightarrow> nat" where
  "digits_value ds = foldl (\<lambda>acc c. 10 * acc + (of_char c - 48)) 0 ds"

text \<open>
  \<open>scan_int s\<close> is what \<open>%d\<close> reads: leading white space, an optional sign, at least one
  digit; it returns the value and the number of characters consumed (the \<open>%n\<close> that
  follows), or \<open>None\<close> when no digit follows (the conversion fails).
\<close>

definition sign_prefix :: "string \<Rightarrow> bool \<times> nat" where
  "sign_prefix r = (case r of
      c # _ \<Rightarrow> (if c = CHR ''-'' then (True, 1) else if c = CHR ''+'' then (False, 1) else (False, 0))
    | [] \<Rightarrow> (False, 0))"

definition scan_int :: "string \<Rightarrow> (int \<times> nat) option" where
  "scan_int s =
     (let ws = length (takeWhile c_isspace s);
          r = drop ws s;
          (neg, sl) = sign_prefix r;
          ds = takeWhile c_isdigit (drop sl r)
      in if ds = [] then None
         else Some (if neg then - int (digits_value ds) else int (digits_value ds),
                    ws + sl + length ds))"

text \<open>\<open>strtol(s, NULL, 10)\<close>: the value, saturated at the \<open>long\<close> limits; 0 when no digit follows.\<close>

definition strtol :: "string \<Rightarrow> int" where
  "strtol s = (case scan_int s of Some (v, _) \<Rightarrow> sat_long v | None \<Rightarrow> 0)"

text \<open>
  \<open>%d\<close> into an \<open>int\<close> (glibc converts with \<open>strtol\<close> and stores the \<open>long\<close> into the
  \<open>int\<close>), with the count of characters consumed.
\<close>

definition scan_d :: "string \<Rightarrow> (int \<times> nat) option" where
  "scan_d s = (case scan_int s of None \<Rightarrow> None | Some (v, n) \<Rightarrow> Some (int32 (sat_long v), n))"

text \<open>
  \<open>strtoul\<close> stored into an \<open>unsigned int\<close> field: \<open>ULONG_MAX\<close> when the magnitude is out
  of range, otherwise the value (negated modulo \<open>2^64\<close> after a minus sign), then truncated
  modulo \<open>2^32\<close>.
\<close>

definition strtoul_u32 :: "string \<Rightarrow> 32 word" where
  "strtoul_u32 s =
     (case scan_int s of
        Some (v, _) \<Rightarrow> word_of_int (if ULONG_MAX < \<bar>v\<bar> then ULONG_MAX else v)
      | None \<Rightarrow> 0)"

subsection \<open>Decimal output: \<open>printf("%d")\<close>, \<open>printf("%u")\<close>\<close>

fun show_nat :: "nat \<Rightarrow> string" where
  "show_nat n = (if n < 10 then [digit_char n] else show_nat (n div 10) @ [digit_char (n mod 10)])"

declare show_nat.simps [simp del]

definition show_int :: "int \<Rightarrow> string" where
  "show_int i = (if i < 0 then CHR ''-'' # show_nat (nat (- i)) else show_nat (nat i))"

definition show_u32 :: "32 word \<Rightarrow> string" where
  "show_u32 w = show_nat (unat w)"

subsection \<open>Strings: \<open>safestrncpy\<close> and \<open>sv_split\<close>\<close>

text \<open>\<open>safestrncpy(dst, src, n)\<close> copies at most \<open>n - 1\<close> characters of the C string and terminates it.\<close>

definition safestrncpy :: "nat \<Rightarrow> string \<Rightarrow> string" where
  "safestrncpy n s = take (n - 1) (takeWhile (\<lambda>c. c \<noteq> NUL) s)"

text \<open>
  \<open>sv_split(str, len, 0, '\t', fields, 32, SV_NOESCAPE_NOTERMINATE)\<close>: the whole string is
  split at every tab (a newline does not end the line, so the last field keeps it); the
  result is the list \<open>fields[1..count]\<close> and its length is \<open>count\<close>.
\<close>

fun split_tab :: "string \<Rightarrow> string list" where
  "split_tab [] = [[]]"
| "split_tab (c # cs) =
     (if c = TAB then [] # split_tab cs
      else (case split_tab cs of f # fs \<Rightarrow> (c # f) # fs | [] \<Rightarrow> [[c]]))"

text \<open>The line \<open>printf\<close> writes: each field followed by a tab.\<close>

definition tab_fields :: "string list \<Rightarrow> string" where
  "tab_fields fs = concat (map (\<lambda>f. f @ [TAB]) fs)"

subsection \<open>\<open>fgets\<close> on a fixed buffer\<close>

definition LINE_BUF :: nat where
  "LINE_BUF = 2048"

text \<open>\<open>fgets(line, n, fp)\<close> reads at most \<open>n - 1\<close> characters and stops after a newline.\<close>

fun fgets_take :: "nat \<Rightarrow> string \<Rightarrow> string" where
  "fgets_take 0 s = []"
| "fgets_take (Suc n) [] = []"
| "fgets_take (Suc n) (c # cs) = (if c = NL then [c] else c # fgets_take n cs)"

function fgets_lines :: "string \<Rightarrow> string list" where
  "fgets_lines s =
     (if s = [] then []
      else (let l = fgets_take (LINE_BUF - 1) s in l # fgets_lines (drop (length l) s)))"
  by pat_completeness auto
termination
proof (relation "measure length")
  fix s :: string and l
  assume "s \<noteq> []" and l: "l = fgets_take (LINE_BUF - 1) s"
  have nonempty: "fgets_take n s \<noteq> []" if "0 < n" "s \<noteq> []" for n and s :: string
    using that by (cases n; cases s) auto
  from \<open>s \<noteq> []\<close> l have "l \<noteq> []" by (simp add: nonempty LINE_BUF_def)
  then have "0 < length l" by simp
  moreover have "0 < length s" using \<open>s \<noteq> []\<close> by simp
  ultimately show "(drop (length l) s, s) \<in> measure length" by simp
qed simp

declare fgets_lines.simps [simp del]

declare c_isspace_def [cstr_simps] c_isdigit_def [cstr_simps] sign_prefix_def [cstr_simps]
  digits_value_def [cstr_simps] scan_int_def [cstr_simps] strtol_def [cstr_simps]
  strtoul_u32_def [cstr_simps] safestrncpy_def [cstr_simps] scan_d_def [cstr_simps]
  int32_def [cstr_simps] sat_long_def [cstr_simps] LONG_MIN_def [cstr_simps] LONG_MAX_def [cstr_simps]
  ULONG_MAX_def [cstr_simps]

subsection \<open>\<open>fgets\<close> lemmas\<close>

lemma fgets_take_length: "length (fgets_take n s) \<le> length s"
  by (induction n s rule: fgets_take.induct) auto

subsection \<open>Round trips of the helpers\<close>

text \<open>Decimal output read back by \<open>%d\<close> and \<open>strtol\<close>.\<close>

lemma digit_char_isdigit: "d < 10 \<Longrightarrow> c_isdigit (digit_char d)"
  by (simp add: c_isdigit_def digit_char_def)

lemma show_nat_digits: "\<forall>c\<in>set (show_nat n). c_isdigit c"
proof (induction n rule: show_nat.induct)
  case (1 n)
  then show ?case
    by (subst show_nat.simps) (auto simp: digit_char_isdigit)
qed

lemma show_nat_nonempty [simp]: "show_nat n \<noteq> []"
  by (subst show_nat.simps) simp

lemma digit_char_value: "d < 10 \<Longrightarrow> of_char (digit_char d) - 48 = d"
  by (simp add: digit_char_def)

lemma digits_value_snoc: "digits_value (ds @ [c]) = 10 * digits_value ds + (of_char c - 48)"
  by (simp add: digits_value_def)

lemma digits_value_show_nat [simp]: "digits_value (show_nat n) = n"
proof (induction n rule: show_nat.induct)
  case (1 n)
  show ?case
  proof (cases "n < 10")
    case True
    then show ?thesis by (subst show_nat.simps) (simp add: digits_value_def digit_char_value)
  next
    case False
    with "1.IH" show ?thesis
      by (subst show_nat.simps) (simp add: digits_value_snoc digit_char_value)
  qed
qed

lemma sign_char_not_space: "\<not> c_isspace (CHR ''-'')" "\<not> c_isdigit (CHR ''-'')"
  by (simp_all add: c_isspace_def c_isdigit_def)

lemma digit_not_space: "c_isdigit c \<Longrightarrow> \<not> c_isspace c"
  by (auto simp: c_isspace_def c_isdigit_def)

lemma show_nat_0 [simp]: "show_nat 0 = ''0''"
  by (subst show_nat.simps) (simp add: digit_char_def char_of_def bit_simps)

lemma show_nat_hd: "\<exists>c cs. show_nat n = c # cs \<and> c_isdigit c"
  using show_nat_digits [of n] show_nat_nonempty [of n]
  by (cases "show_nat n") auto

lemma not_digit_stop: "rest = [] \<or> \<not> c_isdigit (hd rest) \<Longrightarrow> takeWhile c_isdigit (show_nat n @ rest) = show_nat n"
  using show_nat_digits [of n] by (cases rest) (auto simp: takeWhile_all_eq)

lemma show_int_hd: "\<exists>c cs. show_int i = c # cs \<and> (c_isdigit c \<or> c = CHR ''-'')"
proof -
  obtain c cs where "show_nat (nat \<bar>i\<bar>) = c # cs" "c_isdigit c" using show_nat_hd by blast
  then show ?thesis by (auto simp: show_int_def)
qed

lemma length_show_nat: "n < 10 ^ k \<Longrightarrow> 0 < k \<Longrightarrow> length (show_nat n) \<le> k"
proof (induction n arbitrary: k rule: show_nat.induct)
  case (1 n)
  show ?case
  proof (cases "n < 10")
    case True
    with "1.prems" show ?thesis by (subst show_nat.simps) simp
  next
    case False
    then obtain k' where k: "k = Suc k'" using "1.prems" by (cases k) auto
    have "0 < k'" using False "1.prems" k by (cases k') auto
    moreover have "n div 10 < 10 ^ k'" using "1.prems" k by (simp add: div_less_iff_less_mult mult.commute)
    ultimately have "length (show_nat (n div 10)) \<le> k'" using "1.IH" False by blast
    with False k show ?thesis by (subst show_nat.simps) simp
  qed
qed

lemma length_show_int_32: "\<bar>i\<bar> < 2 ^ 31 \<Longrightarrow> length (show_int i) \<le> 11"
proof -
  assume "\<bar>i\<bar> < 2 ^ 31"
  then have "nat \<bar>i\<bar> < 10 ^ 10" by simp
  then have "length (show_nat (nat \<bar>i\<bar>)) \<le> 10" by (rule length_show_nat) simp
  then show ?thesis by (cases "i < 0") (simp_all add: show_int_def)
qed

lemma length_show_int_c_int: "c_int i \<Longrightarrow> length (show_int i) \<le> 11"
proof -
  assume "c_int i"
  then have "\<bar>i\<bar> < 10 ^ 10" by (simp add: c_int_def INT_MIN_def INT_MAX_def abs_if)
  then have "nat \<bar>i\<bar> < 10 ^ 10" by (simp add: nat_less_iff)
  then have "length (show_nat (nat \<bar>i\<bar>)) \<le> 10" by (rule length_show_nat) simp
  then show ?thesis by (cases "i < 0") (simp_all add: show_int_def)
qed

lemma scan_int_show_int:
  assumes "rest = [] \<or> \<not> c_isdigit (hd rest)"
  shows "scan_int (show_int i @ rest) = Some (i, length (show_int i))"
proof -
  obtain c cs where sn: "show_nat (nat \<bar>i\<bar>) = c # cs" and dc: "c_isdigit c"
    using show_nat_hd by blast
  have tw: "takeWhile c_isdigit (show_nat (nat \<bar>i\<bar>) @ rest) = show_nat (nat \<bar>i\<bar>)"
    using assms by (rule not_digit_stop)
  show ?thesis
  proof (cases "i < 0")
    case True
    then have "show_int i = CHR ''-'' # show_nat (nat \<bar>i\<bar>)" by (simp add: show_int_def)
    with True tw show ?thesis
      by (simp add: scan_int_def sign_prefix_def sign_char_not_space Let_def)
  next
    case False
    then have si: "show_int i = show_nat (nat \<bar>i\<bar>)" by (simp add: show_int_def)
    have sp: "sign_prefix (show_nat (nat \<bar>i\<bar>) @ rest) = (False, 0)"
      using sn dc by (auto simp: sign_prefix_def c_isdigit_def)
    have ws: "takeWhile c_isspace (show_nat (nat \<bar>i\<bar>) @ rest) = []"
      using sn dc by (simp add: digit_not_space)
    from False si sp ws tw show ?thesis
      by (simp add: scan_int_def Let_def)
  qed
qed

subsection \<open>The C integer types\<close>

lemma int32_id [simp]: "c_int x \<Longrightarrow> int32 x = x"
  by (simp add: int32_def c_int_def INT_MIN_def INT_MAX_def)

lemma c_int_int32 [simp]: "c_int (int32 x)"
  by (simp add: int32_def c_int_def INT_MIN_def INT_MAX_def)

lemma int32_INT_MAX_Suc: "int32 (INT_MAX + 1) = INT_MIN"
  by (simp add: int32_def INT_MIN_def INT_MAX_def)

lemma int32_sint: "int32 x = sint (word_of_int x :: 32 word)"
  by (simp add: int32_def sint_uint uint_word_of_int_eq signed_take_bit_eq_take_bit_shift
      take_bit_eq_mod mod_add_left_eq)

lemma c_int_c_long: "c_int x \<Longrightarrow> c_long x"
  by (simp add: c_int_def c_long_def INT_MIN_def INT_MAX_def LONG_MIN_def LONG_MAX_def)

lemma sat_long_id [simp]: "c_long x \<Longrightarrow> sat_long x = x"
  by (simp add: sat_long_def c_long_def)

lemma int32_succ: "c_int x \<Longrightarrow> x < INT_MAX \<Longrightarrow> int32 (x + 1) = x + 1"
  by (simp add: c_int_def INT_MIN_def INT_MAX_def)

lemma strtol_show_int:
  "rest = [] \<or> \<not> c_isdigit (hd rest) \<Longrightarrow> c_long i \<Longrightarrow> strtol (show_int i @ rest) = i"
  by (simp add: strtol_def scan_int_show_int)

lemma scan_d_show_int_len:
  "rest = [] \<or> \<not> c_isdigit (hd rest) \<Longrightarrow> \<exists>v. scan_d (show_int i @ rest) = Some (v, length (show_int i))"
  by (simp add: scan_d_def scan_int_show_int)

lemma scan_d_c_int: "scan_d s = Some (v, n) \<Longrightarrow> c_int v"
  by (auto simp: scan_d_def split: option.splits)

lemma scan_d_show_int:
  "rest = [] \<or> \<not> c_isdigit (hd rest) \<Longrightarrow> c_int i \<Longrightarrow> scan_d (show_int i @ rest) = Some (i, length (show_int i))"
  by (simp add: scan_d_def scan_int_show_int c_int_c_long)

text \<open>Tab-separated fields split back, and lines read back by \<open>fgets\<close>.\<close>

lemma split_tab_no_tab: "TAB \<notin> set s \<Longrightarrow> split_tab s = [s]"
  by (induction s) auto

lemma split_tab_append_tab:
  "TAB \<notin> set f \<Longrightarrow> split_tab (f @ TAB # rest) = f # split_tab rest"
proof (induction f)
  case Nil
  then show ?case by simp
next
  case (Cons c f)
  then show ?case by auto
qed

lemma split_tab_tab_fields:
  "\<forall>f\<in>set fs. TAB \<notin> set f \<Longrightarrow> TAB \<notin> set last_f \<Longrightarrow>
   split_tab (tab_fields fs @ last_f) = fs @ [last_f]"
  by (induction fs) (simp_all add: tab_fields_def split_tab_append_tab split_tab_no_tab)

lemma fgets_take_line:
  "NL \<notin> set l \<Longrightarrow> length l < n \<Longrightarrow> fgets_take n (l @ NL # rest) = l @ [NL]"
proof (induction n "l @ NL # rest" arbitrary: l rule: fgets_take.induct)
  case (1 s)
  then show ?case by simp
next
  case (2 n)
  then show ?case by simp
next
  case (3 n c cs)
  then show ?case by (cases l) auto
qed

lemma fgets_lines_Nil [simp]: "fgets_lines [] = []"
  by (simp add: fgets_lines.simps)

lemma fgets_take_le: "length (fgets_take n s) \<le> n"
  by (induction n s rule: fgets_take.induct) auto

lemma fgets_lines_first:
  "s \<noteq> [] \<Longrightarrow> \<exists>rest. fgets_lines s = fgets_take (LINE_BUF - 1) s # rest"
  by (subst fgets_lines.simps) (simp add: Let_def)

lemma fgets_lines_long:
  assumes "LINE_BUF \<le> length s"
  shows "fgets_lines s \<noteq> [s]"
proof -
  have ne: "s \<noteq> []" using assms by (auto simp: LINE_BUF_def)
  obtain rest where eq: "fgets_lines s = fgets_take (LINE_BUF - 1) s # rest"
    using fgets_lines_first [OF ne] by blast
  have "length (fgets_take (LINE_BUF - 1) s) < length s"
    using fgets_take_le [of "LINE_BUF - 1" s] assms by (simp add: LINE_BUF_def)
  then show ?thesis using eq by auto
qed

lemma fgets_lines_lines:
  assumes "\<forall>l\<in>set ls. NL \<notin> set l \<and> length l < LINE_BUF - 1"
  shows "fgets_lines (concat (map (\<lambda>l. l @ [NL]) ls)) = map (\<lambda>l. l @ [NL]) ls"
  using assms
proof (induction ls)
  case Nil
  then show ?case by (simp add: fgets_lines.simps)
next
  case (Cons l ls)
  then have ft: "fgets_take (LINE_BUF - Suc 0) (l @ NL # concat (map (\<lambda>l. l @ [NL]) ls)) = l @ [NL]"
    by (simp add: fgets_take_line)
  from Cons show ?case
    by (subst fgets_lines.simps) (simp add: ft Let_def)
qed

text \<open>What \<open>printf\<close> writes for a number contains no separator and reads back exactly.\<close>

lemma show_int_chars: "c \<in> set (show_int i) \<Longrightarrow> c_isdigit c \<or> c = CHR ''-''"
proof (cases "i < 0")
  case True
  assume "c \<in> set (show_int i)"
  with True show ?thesis using show_nat_digits [of "nat (- i)"] by (auto simp: show_int_def)
next
  case False
  assume "c \<in> set (show_int i)"
  with False show ?thesis using show_nat_digits [of "nat i"] by (auto simp: show_int_def)
qed

lemma show_int_clean: "TAB \<notin> set (show_int i)" "NUL \<notin> set (show_int i)" "NL \<notin> set (show_int i)"
  using show_int_chars [of _ i] by (fastforce simp: c_isdigit_def)+

lemma show_u32_clean: "TAB \<notin> set (show_u32 w)" "NUL \<notin> set (show_u32 w)" "NL \<notin> set (show_u32 w)"
  using show_nat_digits [of "unat w"] by (fastforce simp: show_u32_def c_isdigit_def)+

lemma strtol_show_int_exact [simp]: "c_long i \<Longrightarrow> strtol (show_int i) = i"
  using strtol_show_int [of "[]" i] by simp

lemma strtoul_show_u32 [simp]: "strtoul_u32 (show_u32 w) = w"
proof -
  have s: "show_u32 w = show_int (int (unat w))" by (simp add: show_u32_def show_int_def)
  have "int (unat w) < 2 ^ 32" using unsigned_less [of w] by simp
  then have "\<not> ULONG_MAX < \<bar>int (unat w)\<bar>" by (simp add: ULONG_MAX_def)
  then show ?thesis using scan_int_show_int [of "[]" "int (unat w)"] s by (simp add: strtoul_u32_def)
qed

lemma safestrncpy_id: "length s < n \<Longrightarrow> NUL \<notin> set s \<Longrightarrow> safestrncpy n s = s"
proof -
  assume "length s < n" and "NUL \<notin> set s"
  then have "\<forall>c\<in>set s. c \<noteq> NUL" and "length s \<le> n - 1" by auto
  then show ?thesis by (simp add: safestrncpy_def takeWhile_all_eq)
qed

lemma space_not_comma: "c_isspace c \<Longrightarrow> c \<noteq> CHR '',''"
  by (auto simp: c_isspace_def)

end
