(* ===== verification/AccountCodec.thy ===== *)
theory AccountCodec
  imports CLib
begin

text \<open>
  The versioned record codec of the cached-file backend (src/login/account_txt.c):
  \<open>mmo_auth_fromstr\<close> parses one line of the accounts file under a declared format
  version, \<open>mmo_auth_tostr\<close> prints an account in the current (20080409) layout. The
  account is the C struct \<open>mmo_account\<close> of common/mmo.h (not under src/), with the
  buffer sizes of that header; the registry array with its count
  \<open>account_reg2_num\<close> is the list of its first \<open>account_reg2_num\<close> entries.
\<close>

subsection \<open>The account record\<close>

record global_reg =
  str :: string
  reg_value :: string

record mmo_account =
  account_id :: int
  userid :: string
  pass :: string
  sex :: char
  email :: string
  level :: "32 word"
  state :: "32 word"
  unban_time :: int
  expiration_time :: int
  logincount :: int
  lastlogin :: string
  last_ip :: string
  account_reg2 :: "global_reg list"

definition PASS_SIZE :: nat where "PASS_SIZE = 33"
definition EMAIL_SIZE :: nat where "EMAIL_SIZE = 40"
definition LASTLOGIN_SIZE :: nat where "LASTLOGIN_SIZE = 24"
definition LAST_IP_SIZE :: nat where "LAST_IP_SIZE = 16"
definition ACCOUNT_REG2_NUM :: nat where "ACCOUNT_REG2_NUM = 16"

text \<open>The zero-filled account of \<open>CREATE\<close> (\<open>aCalloc\<close>) and \<open>memset(acc, 0, ...)\<close>.\<close>

definition zero_account :: mmo_account where
  "zero_account =
     \<lparr>account_id = 0, userid = [], pass = [], sex = NUL, email = [], level = 0, state = 0,
      unban_time = 0, expiration_time = 0, logincount = 0, lastlogin = [], last_ip = [],
      account_reg2 = []\<rparr>"

subsection \<open>Registry entries: the two \<open>sscanf\<close> calls of the loop\<close>

text \<open>
  \<open>sscanf(regs, "%31[^\t,],%255[^\t ] %n", key, value, &n) == 2\<close>: a key of one to 31
  characters other than tab and comma, a comma, a value of one to 255 characters other
  than tab and space, then any white space; \<open>n\<close> counts everything consumed.
\<close>

definition reg_key_char :: "char \<Rightarrow> bool" where
  "reg_key_char c \<longleftrightarrow> c \<noteq> TAB \<and> c \<noteq> CHR '',''"

definition reg_value_char :: "char \<Rightarrow> bool" where
  "reg_value_char c \<longleftrightarrow> c \<noteq> TAB \<and> c \<noteq> CHR '' ''"

definition scan_reg :: "string \<Rightarrow> (string \<times> string \<times> nat) option" where
  "scan_reg s =
     (let k = take 31 (takeWhile reg_key_char s);
          r = drop (length k) s
      in if k = [] then None
         else (case r of
                 c # r' \<Rightarrow>
                   (if c \<noteq> CHR '','' then None
                    else (let v = take 255 (takeWhile reg_value_char r');
                              r'' = drop (length v) r'
                          in if v = [] then None
                             else Some (k, v, length k + 1 + length v + length (takeWhile c_isspace r''))))
               | [] \<Rightarrow> None))"

text \<open>
  \<open>regs[0] == ',' && sscanf(regs, ",%[^\t ] %n", value, &n) == 1\<close>: an entry with an empty
  key is skipped as one malformed slot. The value has no width here (the C buffer
  \<open>value[256]\<close> can overflow); the model reads it whole, as \<open>sscanf\<close> does.
\<close>

definition scan_void :: "string \<Rightarrow> nat option" where
  "scan_void s =
     (case s of
        c # r \<Rightarrow>
          (if c \<noteq> CHR '','' then None
           else (let v = takeWhile reg_value_char r
                 in if v = [] then None
                    else Some (1 + length v + length (takeWhile c_isspace (drop (length v) r)))))
      | [] \<Rightarrow> None)"

subsection \<open>The registry loop\<close>

text \<open>
  The \<open>for\<close> loop of \<open>mmo_auth_fromstr\<close> (lines 390--412): entry \<open>i\<close> is scanned from the
  text left after the previous scan; a malformed empty-key slot is skipped without
  counting (\<open>i--; continue;\<close>); any other failure ends the loop. The loop index is
  bounded by \<open>ACCOUNT_REG2_NUM\<close>, and a skipped slot consumes input, so the loop ends:
  the termination measure is the remaining slots, then the remaining text.
\<close>

function parse_regs :: "nat \<Rightarrow> string \<Rightarrow> global_reg list" where
  "parse_regs i regs =
     (if i < ACCOUNT_REG2_NUM then
        (case scan_reg regs of
           Some (k, v, n) \<Rightarrow> \<lparr>str = safestrncpy 32 k, reg_value = safestrncpy 256 v\<rparr> # parse_regs (Suc i) (drop n regs)
         | None \<Rightarrow>
             (if regs \<noteq> [] \<and> hd regs = CHR '','' then
                (case scan_void regs of Some n \<Rightarrow> parse_regs i (drop n regs) | None \<Rightarrow> [])
              else []))
      else [])"
  by pat_completeness auto
termination
proof (relation "measures [\<lambda>(i, regs). ACCOUNT_REG2_NUM - i, \<lambda>(i, regs). length regs]")
  show "wf (measures [\<lambda>(i, regs). ACCOUNT_REG2_NUM - i, \<lambda>(i, regs). length regs])"
    by simp
next
  fix i regs x k y v n
  assume "i < ACCOUNT_REG2_NUM"
  then have "ACCOUNT_REG2_NUM - Suc i < ACCOUNT_REG2_NUM - i" by arith
  then show "((Suc i, drop n regs), i, regs)
             \<in> measures [\<lambda>(i, regs). ACCOUNT_REG2_NUM - i, \<lambda>(i, regs). length regs]"
    by simp
next
  fix i regs n
  assume h: "scan_void regs = Some n"
  then obtain c r where s: "regs = c # r"
    by (cases regs) (auto simp: scan_void_def)
  define v where "v = takeWhile reg_value_char r"
  have n: "n = 1 + length v + length (takeWhile c_isspace (drop (length v) r))"
    using h s by (simp add: scan_void_def v_def[symmetric] Let_def split: if_splits)
  have "length v \<le> length r"
    unfolding v_def by (rule length_takeWhile_le)
  moreover have "length (takeWhile c_isspace (drop (length v) r)) \<le> length r - length v"
    by (metis length_drop length_takeWhile_le)
  ultimately have "0 < n \<and> n \<le> length regs" using n s by simp
  then have "length regs - n < length regs" by arith
  then show "((i, drop n regs), i, regs)
             \<in> measures [\<lambda>(i, regs). ACCOUNT_REG2_NUM - i, \<lambda>(i, regs). length regs]"
    by simp
qed

declare parse_regs.simps [simp del]

subsection \<open>Parsing a line\<close>

text \<open>\<open>fields[k][0]\<close>: the first character of a field, NUL for an empty one.\<close>

definition first_char :: "string \<Rightarrow> char" where
  "first_char f = (case f of [] \<Rightarrow> NUL | c # _ \<Rightarrow> c)"

text \<open>
  The four legacy layouts, selected by the declared version and the field count
  (lines 319--386). \<open>f k\<close> is \<open>fields[k]\<close>; the result is the account's fixed fields and
  the text where the registry begins, or \<open>None\<close> for an unmatched row.
\<close>

definition auth_layout :: "int \<Rightarrow> nat \<Rightarrow> (nat \<Rightarrow> string) \<Rightarrow> (mmo_account \<times> string) option" where
  "auth_layout version count f =
     (if version = 20080409 \<and> count = 13 then
        Some (zero_account\<lparr>account_id := int32 (strtol (f 1)), userid := safestrncpy NAME_LENGTH (f 2),
                pass := safestrncpy PASS_SIZE (f 3), sex := first_char (f 4),
                email := safestrncpy EMAIL_SIZE (f 5), level := strtoul_u32 (f 6),
                state := strtoul_u32 (f 7), unban_time := strtol (f 8),
                expiration_time := strtol (f 9), logincount := int32 (strtol (f 10)),
                lastlogin := safestrncpy LASTLOGIN_SIZE (f 11),
                last_ip := safestrncpy LAST_IP_SIZE (f 12)\<rparr>, f 13)
      else if version = 0 \<and> count = 14 then
        Some (zero_account\<lparr>account_id := int32 (strtol (f 1)), userid := safestrncpy NAME_LENGTH (f 2),
                pass := safestrncpy PASS_SIZE (f 3), lastlogin := safestrncpy LASTLOGIN_SIZE (f 4),
                sex := first_char (f 5), logincount := int32 (strtol (f 6)), state := strtoul_u32 (f 7),
                email := safestrncpy EMAIL_SIZE (f 8), expiration_time := strtol (f 10),
                last_ip := safestrncpy LAST_IP_SIZE (f 11), unban_time := strtol (f 13)\<rparr>, f 14)
      else if version = 0 \<and> count = 13 then
        Some (zero_account\<lparr>account_id := int32 (strtol (f 1)), userid := safestrncpy NAME_LENGTH (f 2),
                pass := safestrncpy PASS_SIZE (f 3), lastlogin := safestrncpy LASTLOGIN_SIZE (f 4),
                sex := first_char (f 5), logincount := int32 (strtol (f 6)), state := strtoul_u32 (f 7),
                email := safestrncpy EMAIL_SIZE (f 8), expiration_time := strtol (f 10),
                last_ip := safestrncpy LAST_IP_SIZE (f 11)\<rparr>, f 13)
      else if version = 0 \<and> count = 8 then
        Some (zero_account\<lparr>account_id := int32 (strtol (f 1)), userid := safestrncpy NAME_LENGTH (f 2),
                pass := safestrncpy PASS_SIZE (f 3), lastlogin := safestrncpy LASTLOGIN_SIZE (f 4),
                sex := first_char (f 5), logincount := int32 (strtol (f 6)), state := strtoul_u32 (f 7)\<rparr>, f 8)
      else None)"

text \<open>
  \<open>mmo_auth_fromstr str version\<close>: the line is cut at its first NUL (\<open>strlen\<close>), split at
  tabs, matched against the layouts, and the registry is parsed from the field after the
  fixed ones.
\<close>

definition mmo_auth_fromstr :: "string \<Rightarrow> int \<Rightarrow> mmo_account option" where
  "mmo_auth_fromstr line version =
     (let fields = split_tab (takeWhile (\<lambda>c. c \<noteq> NUL) line)
      in case auth_layout version (length fields) (\<lambda>k. fields ! (k - 1)) of
           None \<Rightarrow> None
         | Some (a, regs) \<Rightarrow> Some (a\<lparr>account_reg2 := parse_regs 0 regs\<rparr>))"

subsection \<open>Printing a line\<close>

definition reg_tostr :: "global_reg \<Rightarrow> string" where
  "reg_tostr r = str r @ CHR '','' # reg_value r @ [CHR '' '']"

text \<open>
  \<open>mmo_auth_tostr\<close>: the twelve fixed fields of the current layout, each followed by a
  tab, then \<open>"%s,%s "\<close> for every registry entry whose key is not empty.
\<close>

definition mmo_auth_tostr :: "mmo_account \<Rightarrow> string" where
  "mmo_auth_tostr a =
     tab_fields [show_int (account_id a), userid a, pass a, [sex a], email a,
                 show_u32 (level a), show_u32 (state a), show_int (unban_time a),
                 show_int (expiration_time a), show_int (logincount a), lastlogin a, last_ip a]
     @ concat (map reg_tostr (filter (\<lambda>r. str r \<noteq> []) (account_reg2 a)))"

subsection \<open>Well-formed accounts\<close>

text \<open>
  An account the file can store: every string fits its C buffer and holds no NUL, tab or
  newline; a registry entry with a key has a key of at most 31 key characters not starting
  with white space and a non-empty value of at most 255 value characters; the numbers are
  values of their C types (\<open>int\<close> for the id and the login count, \<open>time_t\<close> for the two
  times).
\<close>

definition field_ok :: "nat \<Rightarrow> string \<Rightarrow> bool" where
  "field_ok n s \<longleftrightarrow> length s < n \<and> NUL \<notin> set s \<and> TAB \<notin> set s \<and> NL \<notin> set s"

definition reg_ok :: "global_reg \<Rightarrow> bool" where
  "reg_ok r \<longleftrightarrow>
     str r = [] \<or>
     (length (str r) \<le> 31 \<and> (\<forall>c\<in>set (str r). reg_key_char c \<and> c \<noteq> NUL \<and> c \<noteq> NL) \<and>
      \<not> c_isspace (hd (str r)) \<and>
      reg_value r \<noteq> [] \<and> length (reg_value r) \<le> 255 \<and>
      (\<forall>c\<in>set (reg_value r). reg_value_char c \<and> c \<noteq> NUL \<and> c \<noteq> NL))"

text \<open>
  An entry printed in the shape the registry loop reads, except that its value may be
  empty.
\<close>

definition reg_shape_ok :: "global_reg \<Rightarrow> bool" where
  "reg_shape_ok r \<longleftrightarrow>
     str r = [] \<or>
     (length (str r) \<le> 31 \<and> (\<forall>c\<in>set (str r). reg_key_char c \<and> c \<noteq> NUL \<and> c \<noteq> NL) \<and>
      \<not> c_isspace (hd (str r)) \<and> length (reg_value r) \<le> 255 \<and>
      (\<forall>c\<in>set (reg_value r). reg_value_char c \<and> c \<noteq> NUL \<and> c \<noteq> NL))"

definition account_wf :: "mmo_account \<Rightarrow> bool" where
  "account_wf a \<longleftrightarrow>
     field_ok NAME_LENGTH (userid a) \<and> field_ok PASS_SIZE (pass a) \<and>
     sex a \<noteq> NUL \<and> sex a \<noteq> TAB \<and> sex a \<noteq> NL \<and>
     field_ok EMAIL_SIZE (email a) \<and> field_ok LASTLOGIN_SIZE (lastlogin a) \<and>
     field_ok LAST_IP_SIZE (last_ip a) \<and>
     length (account_reg2 a) \<le> ACCOUNT_REG2_NUM \<and> (\<forall>r\<in>set (account_reg2 a). reg_ok r) \<and>
     c_int (account_id a) \<and> c_int (logincount a) \<and> c_long (unban_time a) \<and> c_long (expiration_time a)"

declare reg_key_char_def [codec_simps] reg_value_char_def [codec_simps] scan_reg_def [codec_simps]
  scan_void_def [codec_simps] first_char_def [codec_simps] auth_layout_def [codec_simps]
  zero_account_def [codec_simps] NAME_LENGTH_def [codec_simps] PASS_SIZE_def [codec_simps]
  EMAIL_SIZE_def [codec_simps] LASTLOGIN_SIZE_def [codec_simps] LAST_IP_SIZE_def [codec_simps]
  ACCOUNT_REG2_NUM_def [codec_simps]

subsection \<open>The scanners consume input\<close>

lemma length_take_takeWhile_le: "length (take w (takeWhile P xs)) \<le> length xs"
  by (simp add: min_le_iff_disj length_takeWhile_le)

lemma length_takeWhile_drop_le: "length (takeWhile P (drop m xs)) \<le> length xs - m"
  by (metis length_drop length_takeWhile_le)

lemma scan_reg_consumes:
  assumes h: "scan_reg s = Some (k, v, n)"
  shows "0 < n \<and> n \<le> length s"
proof -
  define k' where "k' = take 31 (takeWhile reg_key_char s)"
  have lk: "length k' \<le> length s"
    unfolding k'_def by (rule length_take_takeWhile_le)
  have ne: "k' \<noteq> []"
    using h by (auto simp: scan_reg_def k'_def[symmetric] Let_def)
  obtain c r' where r: "drop (length k') s = c # r'"
    using h ne by (cases "drop (length k') s") (auto simp: scan_reg_def k'_def[symmetric] Let_def)
  define v' where "v' = take 255 (takeWhile reg_value_char r')"
  have eq: "scan_reg s = (if c \<noteq> CHR '','' then None
                         else if v' = [] then None
                         else Some (k', v', length k' + 1 + length v' + length (takeWhile c_isspace (drop (length v') r'))))"
    using ne r by (simp add: scan_reg_def k'_def[symmetric] v'_def[symmetric] Let_def)
  have n: "n = length k' + 1 + length v' + length (takeWhile c_isspace (drop (length v') r'))"
    using h eq by (auto split: if_splits)
  have "length s = length k' + Suc (length r')"
    using lk r by (metis add.commute le_add_diff_inverse2 length_Cons length_drop)
  moreover have "length v' \<le> length r'"
    unfolding v'_def by (rule length_take_takeWhile_le)
  moreover have "length (takeWhile c_isspace (drop (length v') r')) \<le> length r' - length v'"
    by (rule length_takeWhile_drop_le)
  ultimately show ?thesis using n by simp
qed

lemma scan_void_consumes:
  assumes h: "scan_void s = Some n"
  shows "0 < n \<and> n \<le> length s"
proof -
  obtain c r where s: "s = c # r"
    using h by (cases s) (auto simp: scan_void_def)
  define v where "v = takeWhile reg_value_char r"
  have n: "n = 1 + length v + length (takeWhile c_isspace (drop (length v) r))"
    using h s by (simp add: scan_void_def v_def[symmetric] Let_def split: if_splits)
  have "length v \<le> length r"
    unfolding v_def by (rule length_takeWhile_le)
  moreover have "length (takeWhile c_isspace (drop (length v) r)) \<le> length r - length v"
    by (rule length_takeWhile_drop_le)
  ultimately show ?thesis using n s by simp
qed

subsection \<open>Bound of the registry loop\<close>

lemma parse_regs_length: "length (parse_regs i regs) \<le> ACCOUNT_REG2_NUM - i"
proof (induction i regs rule: parse_regs.induct)
  case (1 i regs)
  show ?case
  proof (cases "i < ACCOUNT_REG2_NUM")
    case False
    then show ?thesis by (simp add: parse_regs.simps)
  next
    case True
    show ?thesis
    proof (cases "scan_reg regs")
      case (Some r)
      obtain k v n where r: "r = (k, v, n)" by (cases r) auto
      have "length (parse_regs (Suc i) (drop n regs)) \<le> ACCOUNT_REG2_NUM - Suc i"
        using "1.IH" True Some r by blast
      with True Some r show ?thesis by (simp add: parse_regs.simps [of i regs])
    next
      case None
      show ?thesis
      proof (cases "regs \<noteq> [] \<and> hd regs = CHR '','' \<and> scan_void regs \<noteq> None")
        case True': True
        then obtain n where n: "scan_void regs = Some n" by blast
        have "length (parse_regs i (drop n regs)) \<le> ACCOUNT_REG2_NUM - i"
          using "1.IH" True None True' n by blast
        with True None True' n show ?thesis by (simp add: parse_regs.simps [of i regs])
      next
        case False
        with True None show ?thesis by (auto simp: parse_regs.simps [of i regs])
      qed
    qed
  qed
qed

subsection \<open>Round trip of the registry\<close>

lemma scan_reg_no_comma: "CHR '','' \<notin> set s \<Longrightarrow> scan_reg s = None"
proof -
  assume nc: "CHR '','' \<notin> set s"
  define k where "k = take 31 (takeWhile reg_key_char s)"
  have "CHR '','' \<notin> set (drop (length k) s)"
    using nc by (meson in_set_dropD)
  then have "drop (length k) s = [] \<or> hd (drop (length k) s) \<noteq> CHR '',''"
    by (cases "drop (length k) s") auto
  then show ?thesis
    by (auto simp: scan_reg_def k_def[symmetric] Let_def split: list.splits)
qed

lemma reg_ok_shape: "reg_ok r \<Longrightarrow> reg_shape_ok r"
  by (auto simp: reg_ok_def reg_shape_ok_def)

lemma reg_tostr_hd: "reg_shape_ok r \<Longrightarrow> str r \<noteq> [] \<Longrightarrow> \<exists>c cs. reg_tostr r @ t = c # cs \<and> \<not> c_isspace c \<and> c \<noteq> CHR '',''"
  by (cases "str r") (auto simp: reg_tostr_def reg_shape_ok_def reg_key_char_def)

lemma scan_reg_tostr:
  assumes ok: "reg_shape_ok r" and ne: "str r \<noteq> []" and vne: "reg_value r \<noteq> []"
  shows "scan_reg (reg_tostr r @ rest) =
           Some (str r, reg_value r, length (reg_tostr r) + length (takeWhile c_isspace rest))"
proof -
  have k_all: "\<forall>c\<in>set (str r). reg_key_char c" and kl: "length (str r) \<le> 31"
    and v_all: "\<forall>c\<in>set (reg_value r). reg_value_char c" and vl: "length (reg_value r) \<le> 255"
    using ok ne by (auto simp: reg_shape_ok_def)
  have comma: "\<not> reg_key_char (CHR '','')" and sp: "\<not> reg_value_char (CHR '' '')"
    by (simp_all add: reg_key_char_def reg_value_char_def)
  have tk: "takeWhile reg_key_char (str r @ CHR '','' # reg_value r @ CHR '' '' # rest) = str r"
    using k_all comma by simp
  have tv: "takeWhile reg_value_char (reg_value r @ CHR '' '' # rest) = reg_value r"
    using v_all sp by simp
  have sp2: "c_isspace (CHR '' '')" by (simp add: c_isspace_def)
  show ?thesis
    using ne vne kl vl sp2
    by (simp add: scan_reg_def Let_def tk tv reg_tostr_def min_absorb2)
qed

lemma scan_reg_empty_value:
  assumes ok: "reg_shape_ok r" and ne: "str r \<noteq> []" and ve: "reg_value r = []"
  shows "scan_reg (reg_tostr r @ rest) = None"
proof -
  have k_all: "\<forall>c\<in>set (str r). reg_key_char c" and kl: "length (str r) \<le> 31"
    using ok ne by (auto simp: reg_shape_ok_def)
  have "takeWhile reg_key_char (str r @ CHR '','' # CHR '' '' # rest) = str r"
    using k_all by (simp add: reg_key_char_def)
  then show ?thesis
    using ne ve kl by (simp add: scan_reg_def Let_def reg_tostr_def min_absorb2 reg_value_char_def)
qed

lemma reg_ok_copy: "reg_shape_ok r \<Longrightarrow> str r \<noteq> [] \<Longrightarrow>
   \<lparr>str = safestrncpy 32 (str r), reg_value = safestrncpy 256 (reg_value r)\<rparr> = r"
proof -
  assume ok: "reg_shape_ok r" and ne: "str r \<noteq> []"
  then have "length (str r) < 32" "NUL \<notin> set (str r)"
    and "length (reg_value r) < 256" "NUL \<notin> set (reg_value r)"
    by (auto simp: reg_shape_ok_def)
  then have "safestrncpy 32 (str r) = str r" "safestrncpy 256 (reg_value r) = reg_value r"
    by (simp_all add: safestrncpy_id)
  then show ?thesis by simp
qed

lemma dropWhile_regs:
  assumes "\<forall>r\<in>set rs. reg_shape_ok r \<and> str r \<noteq> []" and "\<forall>c\<in>set t. c_isspace c"
  shows "dropWhile c_isspace (concat (map reg_tostr rs) @ t) = (if rs = [] then [] else concat (map reg_tostr rs) @ t)"
proof (cases rs)
  case Nil
  with assms show ?thesis by (simp add: dropWhile_eq_Nil_conv)
next
  case (Cons r rs')
  with assms(1) have "reg_shape_ok r" "str r \<noteq> []" by auto
  then obtain c cs where "reg_tostr r @ concat (map reg_tostr rs') @ t = c # cs" and "\<not> c_isspace c"
    using reg_tostr_hd by blast
  with Cons show ?thesis by simp
qed

lemma parse_regs_Some:
  "i < ACCOUNT_REG2_NUM \<Longrightarrow> scan_reg s = Some (k, v, n) \<Longrightarrow>
   parse_regs i s = \<lparr>str = safestrncpy 32 k, reg_value = safestrncpy 256 v\<rparr> # parse_regs (Suc i) (drop n s)"
  by (subst parse_regs.simps) simp

lemma parse_regs_stop:
  "scan_reg s = None \<Longrightarrow> s = [] \<or> hd s \<noteq> CHR '','' \<Longrightarrow> parse_regs i s = []"
  by (subst parse_regs.simps) auto

text \<open>
  The registry loop on printed entries: it reads them back up to the first one whose value
  is empty, where \<open>%255[^\t ]\<close> matches nothing and the text does not start with a comma.
\<close>

lemma parse_regs_tostr:
  "\<forall>r\<in>set rs. reg_shape_ok r \<and> str r \<noteq> [] \<Longrightarrow> \<forall>c\<in>set t. c_isspace c \<Longrightarrow>
   i + length rs \<le> ACCOUNT_REG2_NUM \<Longrightarrow>
   parse_regs i (concat (map reg_tostr rs) @ t) = takeWhile (\<lambda>r. reg_value r \<noteq> []) rs"
proof (induction rs arbitrary: i t)
  case Nil
  have "CHR '','' \<notin> set t" using Nil.prems(2) space_not_comma by blast
  then have "scan_reg t = None" by (rule scan_reg_no_comma)
  moreover have "t = [] \<or> hd t \<noteq> CHR '',''" using \<open>CHR '','' \<notin> set t\<close> by (cases t) auto
  ultimately show ?case by (simp add: parse_regs_stop)
next
  case (Cons r rs)
  let ?rest = "concat (map reg_tostr rs) @ t"
  have ok: "reg_shape_ok r" "str r \<noteq> []" and i: "i < ACCOUNT_REG2_NUM"
    using Cons.prems by auto
  show ?case
  proof (cases "reg_value r = []")
    case True
    have "scan_reg (reg_tostr r @ ?rest) = None" using scan_reg_empty_value [OF ok True] .
    moreover have "hd (reg_tostr r @ ?rest) \<noteq> CHR '',''"
      using reg_tostr_hd [OF ok, of ?rest] by (metis list.sel(1))
    ultimately show ?thesis using True by (simp add: parse_regs_stop)
  next
    case vne: False
    have sc: "scan_reg (reg_tostr r @ ?rest) = Some (str r, reg_value r, length (reg_tostr r) + length (takeWhile c_isspace ?rest))"
      using ok vne by (rule scan_reg_tostr)
    have dr: "drop (length (reg_tostr r) + length (takeWhile c_isspace ?rest)) (reg_tostr r @ ?rest) = dropWhile c_isspace ?rest"
      by (simp add: dropWhile_eq_drop)
    have ws: "\<forall>c\<in>set (if rs = [] then [] else t). c_isspace c" using Cons.prems(2) by simp
    have "dropWhile c_isspace ?rest = concat (map reg_tostr rs) @ (if rs = [] then [] else t)"
      using Cons.prems(1,2) by (simp add: dropWhile_regs)
    then have "parse_regs (Suc i) (dropWhile c_isspace ?rest) = takeWhile (\<lambda>r. reg_value r \<noteq> []) rs"
      using Cons.IH [OF _ ws] Cons.prems(1,3) by simp
    with parse_regs_Some [OF i sc] dr ok vne show ?thesis
      by (simp add: reg_ok_copy)
  qed
qed

subsection \<open>Round trip of a line\<close>

lemma first_char_single [simp]: "first_char [c] = c"
  by (simp add: first_char_def)

lemma regs_text_chars:
  assumes "\<forall>r\<in>set rs. reg_shape_ok r" and "c \<in> set (concat (map reg_tostr (filter (\<lambda>r. str r \<noteq> []) rs)))"
  shows "c \<noteq> TAB \<and> c \<noteq> NUL \<and> c \<noteq> NL"
proof -
  from assms(2) obtain r where r: "r \<in> set rs" "str r \<noteq> []" and c: "c \<in> set (reg_tostr r)"
    by auto
  from assms(1) r have ok: "reg_shape_ok r" by blast
  from c have "c \<in> set (str r) \<or> c = CHR '','' \<or> c \<in> set (reg_value r) \<or> c = CHR '' ''"
    by (auto simp: reg_tostr_def)
  with ok r show ?thesis
    by (auto simp: reg_shape_ok_def reg_key_char_def reg_value_char_def)
qed

lemma mmo_auth_fromstr_tostr_gen:
  assumes wf: "account_wf (a\<lparr>account_reg2 := []\<rparr>)" and regs_ok: "\<forall>r\<in>set (account_reg2 a). reg_shape_ok r"
    and nregs: "length (account_reg2 a) \<le> ACCOUNT_REG2_NUM"
  shows "mmo_auth_fromstr (mmo_auth_tostr a @ [NL]) 20080409 =
           Some (a\<lparr>account_reg2 := takeWhile (\<lambda>r. reg_value r \<noteq> []) (filter (\<lambda>r. str r \<noteq> []) (account_reg2 a))\<rparr>)"
proof -
  let ?rs = "filter (\<lambda>r. str r \<noteq> []) (account_reg2 a)"
  let ?R = "concat (map reg_tostr ?rs)"
  let ?F = "[show_int (account_id a), userid a, pass a, [sex a], email a,
             show_u32 (level a), show_u32 (state a), show_int (unban_time a),
             show_int (expiration_time a), show_int (logincount a), lastlogin a, last_ip a]"
  have line: "mmo_auth_tostr a @ [NL] = tab_fields ?F @ (?R @ [NL])"
    by (simp add: mmo_auth_tostr_def)
  have rc: "TAB \<notin> set ?R" "NUL \<notin> set ?R"
    using regs_text_chars [OF regs_ok] by blast+
  have fields_clean: "\<forall>f\<in>set ?F. TAB \<notin> set f \<and> NUL \<notin> set f"
    using wf by (auto simp: account_wf_def field_ok_def show_int_clean show_u32_clean)
  have nonul: "takeWhile (\<lambda>c. c \<noteq> NUL) (tab_fields ?F @ (?R @ [NL])) = tab_fields ?F @ (?R @ [NL])"
    using fields_clean rc(2) by (intro takeWhile_all_eq) (auto simp: tab_fields_def)
  have split: "split_tab (tab_fields ?F @ (?R @ [NL])) = ?F @ [?R @ [NL]]"
    using fields_clean rc(1) by (intro split_tab_tab_fields) auto
  have regs: "parse_regs 0 (?R @ [NL]) = takeWhile (\<lambda>r. reg_value r \<noteq> []) ?rs"
  proof (rule parse_regs_tostr)
    show "\<forall>r\<in>set ?rs. reg_shape_ok r \<and> str r \<noteq> []" using regs_ok by simp
    show "\<forall>c\<in>set [NL]. c_isspace c" by (simp add: c_isspace_def)
    show "0 + length ?rs \<le> ACCOUNT_REG2_NUM"
    proof -
      from nregs show ?thesis by (metis length_filter_le le_trans add_0)
    qed
  qed
  have copies: "safestrncpy NAME_LENGTH (userid a) = userid a" "safestrncpy PASS_SIZE (pass a) = pass a"
    "safestrncpy EMAIL_SIZE (email a) = email a" "safestrncpy LASTLOGIN_SIZE (lastlogin a) = lastlogin a"
    "safestrncpy LAST_IP_SIZE (last_ip a) = last_ip a"
    using wf by (simp_all add: account_wf_def field_ok_def safestrncpy_id)
  have nums: "c_int (account_id a)" "c_int (logincount a)" "c_long (unban_time a)" "c_long (expiration_time a)"
    using wf by (simp_all add: account_wf_def)
  show ?thesis
    unfolding mmo_auth_fromstr_def line nonul split
    by (simp add: auth_layout_def copies regs zero_account_def nums c_int_c_long)
qed

lemma mmo_auth_fromstr_tostr:
  assumes wf: "account_wf a"
  shows "mmo_auth_fromstr (mmo_auth_tostr a @ [NL]) 20080409 =
           Some (a\<lparr>account_reg2 := filter (\<lambda>r. str r \<noteq> []) (account_reg2 a)\<rparr>)"
proof -
  have w0: "account_wf (a\<lparr>account_reg2 := []\<rparr>)" and ok: "\<forall>r\<in>set (account_reg2 a). reg_ok r"
    and n: "length (account_reg2 a) \<le> ACCOUNT_REG2_NUM"
    using wf by (simp_all add: account_wf_def)
  have "takeWhile (\<lambda>r. reg_value r \<noteq> []) (filter (\<lambda>r. str r \<noteq> []) (account_reg2 a)) =
        filter (\<lambda>r. str r \<noteq> []) (account_reg2 a)"
    using ok by (auto simp: takeWhile_eq_all_conv reg_ok_def)
  then show ?thesis
    using mmo_auth_fromstr_tostr_gen [OF w0 _ n] ok reg_ok_shape by simp
qed

text \<open>
  C1: Codec round trip. For every well-formed account, parsing the line that
  \<open>mmo_auth_tostr\<close> prints (with the newline \<open>mmo_auth_sync\<close> appends) under the current
  version 20080409 gives the account back, except that registry entries with an empty
  key, which the printer skips, are gone.
\<close>

theorem mmo_auth_roundtrip:
  assumes wf: "account_wf a"
  shows "mmo_auth_fromstr (mmo_auth_tostr a @ [NL]) 20080409 =
           Some (a\<lparr>account_reg2 := filter (\<lambda>r. str r \<noteq> []) (account_reg2 a)\<rparr>)"
  using mmo_auth_fromstr_tostr [OF wf] .

text \<open>The printed line: the id, a tab, and later the digits of \<open>level\<close>; no newline in it.\<close>

lemma mmo_auth_tostr_shape:
  "\<exists>p q. mmo_auth_tostr a = show_int (account_id a) @ TAB # p @ show_u32 (level a) @ q"
  by (rule exI [where x = "userid a @ TAB # pass a @ TAB # sex a # TAB # email a @ [TAB]"])
    (simp add: mmo_auth_tostr_def tab_fields_def)

lemma mmo_auth_tostr_no_NL:
  assumes "account_wf a"
  shows "NL \<notin> set (mmo_auth_tostr a)"
proof -
  have "\<forall>r\<in>set (account_reg2 a). reg_shape_ok r" using assms reg_ok_shape by (simp add: account_wf_def)
  then have "NL \<notin> set (concat (map reg_tostr (filter (\<lambda>r. str r \<noteq> []) (account_reg2 a))))"
    using regs_text_chars by blast
  with assms show ?thesis
    by (auto simp: mmo_auth_tostr_def tab_fields_def account_wf_def field_ok_def show_int_clean show_u32_clean)
qed

lemma mmo_auth_tostr_no_NUL:
  assumes "account_wf a"
  shows "NUL \<notin> set (mmo_auth_tostr a)"
proof -
  have "\<forall>r\<in>set (account_reg2 a). reg_shape_ok r" using assms reg_ok_shape by (simp add: account_wf_def)
  then have "NUL \<notin> set (concat (map reg_tostr (filter (\<lambda>r. str r \<noteq> []) (account_reg2 a))))"
    using regs_text_chars by blast
  with assms show ?thesis
    by (auto simp: mmo_auth_tostr_def tab_fields_def account_wf_def field_ok_def show_int_clean show_u32_clean)
qed

text \<open>
  What \<open>"%s"\<close> prints of the line when the sex is NUL: \<open>%c\<close> wrote a NUL byte after the
  password's tab, and the string ends there.
\<close>

lemma mmo_auth_tostr_nul_sex:
  assumes "sex a = NUL" "NUL \<notin> set (userid a)" "NUL \<notin> set (pass a)"
  shows "takeWhile (\<lambda>c. c \<noteq> NUL) (mmo_auth_tostr a) = show_int (account_id a) @ TAB # userid a @ TAB # pass a @ [TAB]"
proof -
  have "\<forall>c\<in>set (show_int (account_id a) @ TAB # userid a @ TAB # pass a @ [TAB]). c \<noteq> NUL"
    using assms show_int_clean [of "account_id a"] by auto
  then show ?thesis using assms
    by (simp add: mmo_auth_tostr_def tab_fields_def takeWhile_append2 takeWhile_all_eq)
qed

lemma mmo_auth_fromstr_four_fields:
  assumes "TAB \<notin> set u" "TAB \<notin> set p" "NUL \<notin> set u" "NUL \<notin> set p"
  shows "mmo_auth_fromstr (show_int i @ TAB # u @ TAB # p @ [TAB, NL]) v = None"
proof -
  have "takeWhile (\<lambda>c. c \<noteq> NUL) (show_int i @ TAB # u @ TAB # p @ [TAB, NL]) = show_int i @ TAB # u @ TAB # p @ [TAB, NL]"
    using assms show_int_clean [of i] by (intro takeWhile_all_eq) auto
  moreover have "split_tab (show_int i @ TAB # u @ TAB # p @ [TAB, NL]) = [show_int i, u, p, [NL]]"
    using assms show_int_clean [of i] by (simp add: split_tab_append_tab split_tab_no_tab)
  ultimately show ?thesis by (simp add: mmo_auth_fromstr_def auth_layout_def)
qed

theorem mmo_auth_roundtrip_witness:
  "account_wf
     \<lparr>account_id = 1001, userid = ''user1'', pass = ''pass1'', sex = CHR ''M'',
      email = ''u1@x.com'', level = 2, state = 0, unban_time = 0, expiration_time = -1,
      logincount = 3, lastlogin = ''2024-01-01'', last_ip = ''1.2.3.4'',
      account_reg2 = [\<lparr>str = ''kk'', reg_value = ''vv''\<rparr>, \<lparr>str = [], reg_value = ''x''\<rparr>]\<rparr> \<and>
   mmo_auth_fromstr
     (mmo_auth_tostr
       \<lparr>account_id = 1001, userid = ''user1'', pass = ''pass1'', sex = CHR ''M'',
        email = ''u1@x.com'', level = 2, state = 0, unban_time = 0, expiration_time = -1,
        logincount = 3, lastlogin = ''2024-01-01'', last_ip = ''1.2.3.4'',
        account_reg2 = [\<lparr>str = ''kk'', reg_value = ''vv''\<rparr>, \<lparr>str = [], reg_value = ''x''\<rparr>]\<rparr> @ [NL])
     20080409 =
   Some \<lparr>account_id = 1001, userid = ''user1'', pass = ''pass1'', sex = CHR ''M'',
      email = ''u1@x.com'', level = 2, state = 0, unban_time = 0, expiration_time = -1,
      logincount = 3, lastlogin = ''2024-01-01'', last_ip = ''1.2.3.4'',
      account_reg2 = [\<lparr>str = ''kk'', reg_value = ''vv''\<rparr>]\<rparr>"
proof -
  have wf: "account_wf
     \<lparr>account_id = 1001, userid = ''user1'', pass = ''pass1'', sex = CHR ''M'',
      email = ''u1@x.com'', level = 2, state = 0, unban_time = 0, expiration_time = -1,
      logincount = 3, lastlogin = ''2024-01-01'', last_ip = ''1.2.3.4'',
      account_reg2 = [\<lparr>str = ''kk'', reg_value = ''vv''\<rparr>, \<lparr>str = [], reg_value = ''x''\<rparr>]\<rparr>"
    by (simp add: account_wf_def field_ok_def reg_ok_def codec_simps cstr_simps c_int_def c_long_def INT_MIN_def INT_MAX_def)
  show ?thesis
    using wf mmo_auth_roundtrip [OF wf] by simp
qed

subsection \<open>What the codec loses\<close>

text \<open>
  C20: a registry entry with a key and an empty value is printed as \<open>key, \<close>; on reading,
  \<open>%255[^\t ]\<close> matches nothing, the text does not start with a comma, and the loop stops.
  For every account whose fields are well formed and whose entries are printed in the
  shape the loop reads, values possibly empty, the registry read back is the printed
  entries up to the first one with an empty value: that entry and every later one are lost.
\<close>

theorem mmo_auth_empty_value_drops:
  assumes "account_wf (a\<lparr>account_reg2 := []\<rparr>)" and "\<forall>r\<in>set (account_reg2 a). reg_shape_ok r"
    and "length (account_reg2 a) \<le> ACCOUNT_REG2_NUM"
  shows "mmo_auth_fromstr (mmo_auth_tostr a @ [NL]) 20080409 =
           Some (a\<lparr>account_reg2 := takeWhile (\<lambda>r. reg_value r \<noteq> []) (filter (\<lambda>r. str r \<noteq> []) (account_reg2 a))\<rparr>)"
  using mmo_auth_fromstr_tostr_gen [OF assms] .

theorem mmo_auth_empty_value_drops_witness:
  "mmo_auth_fromstr (mmo_auth_tostr (zero_account\<lparr>sex := CHR ''M'',
       account_reg2 := [\<lparr>str = ''k1'', reg_value = []\<rparr>, \<lparr>str = ''k2'', reg_value = ''v''\<rparr>]\<rparr>) @ [NL]) 20080409
   = Some (zero_account\<lparr>sex := CHR ''M''\<rparr>)"
proof -
  let ?a = "zero_account\<lparr>sex := CHR ''M'',
       account_reg2 := [\<lparr>str = ''k1'', reg_value = []\<rparr>, \<lparr>str = ''k2'', reg_value = ''v''\<rparr>]\<rparr>"
  have "account_wf (?a\<lparr>account_reg2 := []\<rparr>)" "\<forall>r\<in>set (account_reg2 ?a). reg_shape_ok r"
    "length (account_reg2 ?a) \<le> ACCOUNT_REG2_NUM"
    by (simp_all add: account_wf_def field_ok_def reg_shape_ok_def codec_simps cstr_simps c_int_def c_long_def
        INT_MIN_def INT_MAX_def)
  from mmo_auth_empty_value_drops [OF this] show ?thesis by (simp add: zero_account_def)
qed

end
