(* ===== verification/DBMap.thy ===== *)
theory DBMap
  imports Prelude
begin

text \<open>
  The integer-keyed in-memory map of eAthena (\<open>idb_alloc\<close>, \<open>idb_get\<close>, \<open>idb_put\<close>,
  \<open>idb_remove\<close> and the \<open>DBIterator\<close> of common/db.c, which is not under src/) as an
  association list with distinct keys. The list order stands for the map's native
  iteration order, which the spec leaves unspecified; every property of the backends is
  stated through the abstraction \<open>map_of\<close> or holds for the first match in that order,
  so no theorem depends on the order chosen. \<open>idb_put\<close> on a present key replaces the
  value in place (with \<open>DB_OPT_RELEASE_DATA\<close> the old value is freed); on a new key it
  appends. The refinement lemmas show that the list implements the map
  \<open>'k \<rightharpoonup> 'v\<close> in the style of the map specifications of the functional data
  structures library.
\<close>

type_synonym ('k, 'v) dbmap = "('k \<times> 'v) list"

definition idb_alloc :: "('k, 'v) dbmap" where
  "idb_alloc = []"

definition idb_get :: "('k, 'v) dbmap \<Rightarrow> 'k \<Rightarrow> 'v option" where
  "idb_get m k = map_of m k"

definition idb_put :: "('k, 'v) dbmap \<Rightarrow> 'k \<Rightarrow> 'v \<Rightarrow> ('k, 'v) dbmap" where
  "idb_put m k v =
     (if map_of m k = None then m @ [(k, v)]
      else map (\<lambda>(k', v'). (k', if k' = k then v else v')) m)"

text \<open>\<open>idb_remove\<close> returns the removed value (\<open>NULL\<close> when absent) and the new map.\<close>

definition idb_remove :: "('k, 'v) dbmap \<Rightarrow> 'k \<Rightarrow> 'v option \<times> ('k, 'v) dbmap" where
  "idb_remove m k = (map_of m k, filter (\<lambda>p. fst p \<noteq> k) m)"

text \<open>The values in iteration order (\<open>iter->first\<close>, \<open>iter->next\<close> until \<open>!iter->exists\<close>).\<close>

definition db_values :: "('k, 'v) dbmap \<Rightarrow> 'v list" where
  "db_values m = map snd m"

definition db_inv :: "('k, 'v) dbmap \<Rightarrow> bool" where
  "db_inv m \<longleftrightarrow> distinct (map fst m)"

subsection \<open>The map abstraction\<close>

lemma idb_get_alloc [simp]: "idb_get idb_alloc k = None"
  by (simp add: idb_get_def idb_alloc_def)

lemma db_inv_alloc [simp]: "db_inv idb_alloc"
  by (simp add: db_inv_def idb_alloc_def)

lemma idb_get_map_of: "idb_get m = map_of m"
  by (simp add: fun_eq_iff idb_get_def)

lemma map_of_replace_at:
  "map_of (map (\<lambda>(k', v'). (k', if k' = k then v else v')) m) x =
     (if x = k then map_option (\<lambda>_. v) (map_of m x) else map_of m x)"
  by (induction m) auto

lemma idb_get_put [simp]: "idb_get (idb_put m k v) = (idb_get m)(k \<mapsto> v)"
proof (cases "map_of m k")
  case None
  then show ?thesis
    by (auto simp: idb_get_map_of idb_put_def map_add_def fun_eq_iff split: option.splits)
next
  case (Some y)
  then show ?thesis by (simp add: idb_get_map_of idb_put_def map_of_replace_at fun_eq_iff)
qed

lemma idb_remove_fst: "fst (idb_remove m k) = idb_get m k"
  by (simp add: idb_remove_def idb_get_def)

lemma idb_get_remove [simp]: "idb_get (snd (idb_remove m k)) = (idb_get m)(k := None)"
  by (simp add: idb_remove_def idb_get_map_of map_of_filter_key)

lemma map_fst_replace:
  "map fst (map (\<lambda>(k', v'). (k', if k' = k then v else v')) m) = map fst m"
  by (induction m) auto

lemma db_inv_put [intro]: "db_inv m \<Longrightarrow> db_inv (idb_put m k v)"
  unfolding db_inv_def idb_put_def
  by (auto simp: map_fst_replace map_of_eq_None_iff simp del: map_map)

lemma db_inv_remove [intro]: "db_inv m \<Longrightarrow> db_inv (snd (idb_remove m k))"
  by (simp add: db_inv_def idb_remove_def distinct_keys_filter)

lemma set_db_values: "db_inv m \<Longrightarrow> set (db_values m) = ran (idb_get m)"
  by (simp add: db_inv_def db_values_def idb_get_map_of ran_distinct)

lemma dom_idb_get: "dom (idb_get m) = fst ` set m"
  by (simp add: idb_get_map_of dom_map_of_conv_image_fst)

text \<open>A value found by a scan over the iteration order is stored under some key.\<close>

lemma find_db_values:
  "find P (db_values m) = Some v \<Longrightarrow> \<exists>k. idb_get m k = Some v \<and> P v"
  if "db_inv m"
proof -
  assume f: "find P (db_values m) = Some v"
  then have "v \<in> set (db_values m)" and "P v"
    by (auto simp: find_Some_iff)
  with that show ?thesis
    by (auto simp: set_db_values ran_def)
qed

lemma find_db_values_None:
  "find P (db_values m) = None \<longleftrightarrow> (\<forall>k v. idb_get m k = Some v \<longrightarrow> \<not> P v)"
  if "db_inv m"
  using that by (auto simp: find_None_iff set_db_values ran_def)

end
