(* ===== verification/AccountTxt.thy ===== *)
theory AccountTxt
  imports AccountCodec DBMap
begin

text \<open>
  The cached-file account backend of src/login/account_txt.c. Its state is the C struct
  \<open>AccountDB_TXT\<close> (the in-memory map, the auto-increment counter, the dirty-operation
  counter, the periodic timer); next to it the model keeps the content of the file
  \<open>account_txt\<close>, the durable store the backend reads at init and rewrites on each flush.
  Every operation is a function on that world. Whether \<open>lock_fopen\<close> can open the file
  for writing is an explicit argument \<open>io\<close> of the operations that flush, so that a failed
  flush is a branch of the model.
\<close>

subsection \<open>State\<close>

record AccountDB_TXT =
  accounts :: "(int, mmo_account) dbmap"
  next_account_id :: int
  auths_before_save :: int
  save_timer :: bool

record txt_world =
  db :: AccountDB_TXT
  account_file :: "string option"

definition AUTHS_BEFORE_SAVE :: int where "AUTHS_BEFORE_SAVE = 10"
definition AUTH_SAVING_INTERVAL :: nat where "AUTH_SAVING_INTERVAL = 60000"
definition START_ACCOUNT_NUM :: int where "START_ACCOUNT_NUM = 2000000"
definition ACCOUNT_FILE_VERSION :: int where "ACCOUNT_FILE_VERSION = 20080409"

subsection \<open>Dump: \<open>mmo_auth_sync\<close>\<close>

text \<open>The twelve comment lines written after the version line (lines 449--460).\<close>

definition auth_file_comments :: "string list" where
  "auth_file_comments =
     [''// Accounts file: here are saved all information about the accounts.'',
      ''// Structure: ID, account name, password, last login time, sex, # of logins, state, email, error message for state 7, validity time, last (accepted) login ip, memo field, ban timestamp, repeated(register text, register value)'',
      ''// Some explanations:'',
      ''//   account name    : between 4 to 23 char for a normal account (standard client can'' @ [CHR 0x27] @ ''t send less than 4 char).'',
      ''//   account password: between 4 to 23 char'',
      ''//   sex             : M or F for normal accounts, S for server accounts'',
      ''//   state           : 0: account is ok, 1 to 256: error code of packet 0x006a + 1'',
      ''//   email           : between 3 to 39 char (a@a.com is like no email)'',
      ''//   error message   : text for the state 7: '' @ [CHR 0x27] @ ''Your are Prohibited to login until <text>'' @ [CHR 0x27] @ ''. Max 19 char'',
      ''//   valitidy time   : 0: unlimited account, <other value>: date calculated by addition of 1/1/1970 + value (number of seconds since the 1/1/1970)'',
      ''//   memo field      : max 254 char'',
      ''//   ban time        : 0: no ban, <other value>: banned until the date: date calculated by addition of 1/1/1970 + value (number of seconds since the 1/1/1970)'']"

definition newid_marker :: string where
  "newid_marker = ''%newid%''"

text \<open>
  The file \<open>mmo_auth_sync\<close> writes: the version line, the comments, one line per account
  in the map's iteration order, and the auto-increment marker line. Each account is
  printed into \<open>buf\<close> and written by \<open>fprintf(fp, "%s\n", buf)\<close> (line 469), which stops
  at the first NUL byte of the buffer.
\<close>

definition mmo_auth_dump :: "AccountDB_TXT \<Rightarrow> string" where
  "mmo_auth_dump d =
     show_int ACCOUNT_FILE_VERSION @ [NL]
     @ concat (map (\<lambda>c. c @ [NL]) auth_file_comments)
     @ concat (map (\<lambda>a. takeWhile (\<lambda>c. c \<noteq> NUL) (mmo_auth_tostr a) @ [NL]) (db_values (accounts d)))
     @ show_int (next_account_id d) @ TAB # newid_marker @ [NL]"

text \<open>
  \<open>mmo_auth_sync\<close>: when \<open>lock_fopen\<close> fails the function returns at once (the counter is
  not reset); otherwise the dump is published atomically on \<open>lock_fclose\<close> and the
  counter is reset.
\<close>

definition mmo_auth_sync :: "bool \<Rightarrow> txt_world \<Rightarrow> txt_world" where
  "mmo_auth_sync io w =
     (if \<not> io then w
      else w\<lparr>account_file := Some (mmo_auth_dump (db w)),
             db := (db w)\<lparr>auths_before_save := AUTHS_BEFORE_SAVE\<rparr>\<rparr>)"

text \<open>\<open>mmo_auth_sync_timer\<close>: flush only when the database was modified since the last flush.\<close>

definition mmo_auth_sync_timer :: "bool \<Rightarrow> txt_world \<Rightarrow> txt_world" where
  "mmo_auth_sync_timer io w =
     (if auths_before_save (db w) < AUTHS_BEFORE_SAVE then mmo_auth_sync io w else w)"

subsection \<open>Load: \<open>account_db_txt_init\<close>\<close>

text \<open>\<open>line[0] == '/' && line[1] == '/'\<close>\<close>

definition is_comment_line :: "string \<Rightarrow> bool" where
  "is_comment_line l \<longleftrightarrow> take 2 l = ''//''"

text \<open>\<open>sscanf(line, "%d%n", &v, &n) == 1 && line[n] == '\n'\<close>\<close>

definition version_line :: "string \<Rightarrow> int option" where
  "version_line l =
     (case scan_d l of
        None \<Rightarrow> None
      | Some (v, n) \<Rightarrow> (if take 1 (drop n l) = [NL] then Some v else None))"

text \<open>
  \<open>sscanf(line, "%d\t%%newid%%%n", &account_id, &n) == 1 && line[n] == '\n'\<close>: the tab
  of the format matches any white space, and so does the white space skipped before each
  \<open>%%\<close> conversion.
\<close>

definition newid_line :: "string \<Rightarrow> int option" where
  "newid_line l =
     (case scan_d l of
        None \<Rightarrow> None
      | Some (v, n) \<Rightarrow>
          (case dropWhile c_isspace (drop n l) of
             c # r \<Rightarrow>
               (if c = CHR ''%'' \<and> take 5 r = ''newid''
                then (if take 2 (dropWhile c_isspace (drop 5 r)) = [CHR ''%'', NL] then Some v else None)
                else None)
           | [] \<Rightarrow> None))"

text \<open>
  A record line (lines 110--149): parsed under the current version; skipped when
  malformed or when its id is taken (the first occurrence wins); otherwise stored, and
  the counter moves past the id when it is below it.
\<close>

definition load_account_line :: "int \<Rightarrow> AccountDB_TXT \<Rightarrow> string \<Rightarrow> AccountDB_TXT" where
  "load_account_line version d line =
     (case mmo_auth_fromstr line version of
        None \<Rightarrow> d
      | Some acc \<Rightarrow>
          (if idb_get (accounts d) (account_id acc) \<noteq> None then d
           else d\<lparr>accounts := idb_put (accounts d) (account_id acc) acc,
                  next_account_id :=
                    (if next_account_id d < account_id acc then int32 (account_id acc + 1)
                     else next_account_id d)\<rparr>))"

text \<open>One iteration of the \<open>fgets\<close> loop of \<open>account_db_txt_init\<close> (lines 89--150).\<close>

definition init_line :: "int \<times> AccountDB_TXT \<Rightarrow> string \<Rightarrow> int \<times> AccountDB_TXT" where
  "init_line st line =
     (let (version, d) = st in
      if is_comment_line line then (version, d)
      else (case version_line line of
              Some v \<Rightarrow> (v, d)
            | None \<Rightarrow>
                (case newid_line line of
                   Some aid \<Rightarrow>
                     (if next_account_id d < aid then (version, d\<lparr>next_account_id := aid\<rparr>)
                      else (version, load_account_line version d line))
                 | None \<Rightarrow> (version, load_account_line version d line))))"

definition txt_db_alloc :: AccountDB_TXT where
  "txt_db_alloc =
     \<lparr>accounts = idb_alloc, next_account_id = START_ACCOUNT_NUM,
      auths_before_save = AUTHS_BEFORE_SAVE, save_timer = False\<rparr>"

text \<open>
  \<open>account_db_txt_init\<close>: a missing file is fatal (\<open>false\<close>); otherwise every line read by
  \<open>fgets\<close> goes through the loop body, starting at version 0, and the periodic timer is
  registered.
\<close>

definition account_db_txt_init :: "string option \<Rightarrow> bool \<times> AccountDB_TXT" where
  "account_db_txt_init file =
     (case file of
        None \<Rightarrow> (False, txt_db_alloc)
      | Some content \<Rightarrow>
          (True, (snd (foldl init_line (0, txt_db_alloc) (fgets_lines content)))\<lparr>save_timer := True\<rparr>))"

subsection \<open>Operations\<close>

text \<open>\<open>account_db_txt_create\<close>: the account is stored under the next free id, the counter advances, and the file is flushed.\<close>

definition account_db_txt_create :: "bool \<Rightarrow> mmo_account \<Rightarrow> txt_world \<Rightarrow> bool \<times> txt_world" where
  "account_db_txt_create io acc w =
     (let d = db w; aid = next_account_id d
      in if idb_get (accounts d) aid \<noteq> None then (False, w)
         else (True, mmo_auth_sync io
                       (w\<lparr>db := d\<lparr>accounts := idb_put (accounts d) aid acc,
                                   next_account_id := int32 (aid + 1)\<rparr>\<rparr>)))"

definition account_db_txt_remove :: "bool \<Rightarrow> int \<Rightarrow> txt_world \<Rightarrow> bool \<times> txt_world" where
  "account_db_txt_remove io aid w =
     (let (old, m) = idb_remove (accounts (db w)) aid
      in if old = None then (False, w)
         else (True, mmo_auth_sync io (w\<lparr>db := (db w)\<lparr>accounts := m\<rparr>\<rparr>)))"

text \<open>\<open>account_db_txt_save\<close>: overwrite, then \<open>if( --db->auths_before_save == 0 ) mmo_auth_sync(db)\<close>.\<close>

definition account_db_txt_save :: "bool \<Rightarrow> mmo_account \<Rightarrow> txt_world \<Rightarrow> bool \<times> txt_world" where
  "account_db_txt_save io acc w =
     (let d = db w; aid = account_id acc
      in if idb_get (accounts d) aid = None then (False, w)
         else (let d' = d\<lparr>accounts := idb_put (accounts d) aid acc,
                          auths_before_save := auths_before_save d - 1\<rparr>;
                   w' = w\<lparr>db := d'\<rparr>
               in (True, if auths_before_save d' = 0 then mmo_auth_sync io w' else w')))"

text \<open>The two loads fill the caller's buffer: a copy of the account, or zeros.\<close>

definition account_db_txt_load_num :: "int \<Rightarrow> txt_world \<Rightarrow> bool \<times> mmo_account" where
  "account_db_txt_load_num aid w =
     (case idb_get (accounts (db w)) aid of
        None \<Rightarrow> (False, zero_account)
      | Some a \<Rightarrow> (True, a))"

definition account_db_txt_load_str :: "string \<Rightarrow> txt_world \<Rightarrow> bool \<times> mmo_account" where
  "account_db_txt_load_str name w =
     (case find (\<lambda>a. name = userid a) (db_values (accounts (db w))) of
        None \<Rightarrow> (False, zero_account)
      | Some a \<Rightarrow> (True, a))"

text \<open>\<open>account_db_txt_free\<close>: the timer is deleted, the file flushed, the memory released; what remains is the file.\<close>

definition account_db_txt_free :: "bool \<Rightarrow> txt_world \<Rightarrow> bool \<times> string option" where
  "account_db_txt_free io w =
     (True, account_file (mmo_auth_sync io (w\<lparr>db := (db w)\<lparr>save_timer := False\<rparr>\<rparr>)))"

subsection \<open>The interface: the vtable of \<open>account_db_txt\<close>\<close>

text \<open>
  \<open>account_db_txt()\<close> fills the \<open>AccountDB\<close> vtable with the functions above; the timer
  callback registered by \<open>init\<close> is the one other entry into the backend. An operation
  is a call through the vtable (or a firing of the timer); its result is the returned
  flag, with the caller's buffer for the loads.
\<close>

datatype account_op =
    OpCreate mmo_account
  | OpRemove int
  | OpSave mmo_account
  | OpLoadNum int
  | OpLoadStr string
  | OpTimer

datatype account_res = RBool bool | RAccount bool mmo_account

fun account_db_txt :: "bool \<Rightarrow> account_op \<Rightarrow> txt_world \<Rightarrow> account_res \<times> txt_world" where
  "account_db_txt io (OpCreate a) w = (let (b, w') = account_db_txt_create io a w in (RBool b, w'))"
| "account_db_txt io (OpRemove aid) w = (let (b, w') = account_db_txt_remove io aid w in (RBool b, w'))"
| "account_db_txt io (OpSave a) w = (let (b, w') = account_db_txt_save io a w in (RBool b, w'))"
| "account_db_txt io (OpLoadNum aid) w = (let (b, a) = account_db_txt_load_num aid w in (RAccount b a, w))"
| "account_db_txt io (OpLoadStr n) w = (let (b, a) = account_db_txt_load_str n w in (RAccount b a, w))"
| "account_db_txt io OpTimer w = (RBool True, mmo_auth_sync_timer io w)"

text \<open>A sequence of calls, each with the outcome of its \<open>lock_fopen\<close> if it flushes.\<close>

fun txt_run :: "(bool \<times> account_op) list \<Rightarrow> txt_world \<Rightarrow> txt_world" where
  "txt_run [] w = w"
| "txt_run ((io, op) # ops) w = txt_run ops (snd (account_db_txt io op w))"

text \<open>
  The backend as a state machine: any call through the vtable, any outcome of the file
  system, and the timer only while it is registered. The reachable worlds start from a
  successful \<open>init\<close> on the file found on disk.
\<close>

inductive txt_step :: "txt_world \<Rightarrow> txt_world \<Rightarrow> bool" where
  call: "op \<noteq> OpTimer \<Longrightarrow> txt_step w (snd (account_db_txt io op w))"
| timer: "save_timer (db w) \<Longrightarrow> txt_step w (snd (account_db_txt io OpTimer w))"

inductive txt_reachable :: "txt_world \<Rightarrow> bool" where
  init: "account_db_txt_init (Some f) = (True, d) \<Longrightarrow> txt_reachable \<lparr>db = d, account_file = Some f\<rparr>"
| step: "txt_reachable w \<Longrightarrow> txt_step w w' \<Longrightarrow> txt_reachable w'"

text \<open>
  The same machine when every \<open>lock_fopen\<close> succeeds: the file system never fails.
\<close>

inductive txt_reachable_io :: "txt_world \<Rightarrow> bool" where
  init: "account_db_txt_init (Some f) = (True, d) \<Longrightarrow> txt_reachable_io \<lparr>db = d, account_file = Some f\<rparr>"
| call: "txt_reachable_io w \<Longrightarrow> op \<noteq> OpTimer \<Longrightarrow> txt_reachable_io (snd (account_db_txt True op w))"
| timer: "txt_reachable_io w \<Longrightarrow> save_timer (db w) \<Longrightarrow> txt_reachable_io (snd (account_db_txt True OpTimer w))"

subsection \<open>Invariants\<close>

text \<open>
  The structural invariant: the map has distinct keys, the dirty counter never
  exceeds its threshold, and the auto-increment counter is a value of its C type. Freshness of the auto-increment counter and agreement of each
  key with the stored \<open>account_id\<close> are separate predicates: the code does not keep them
  in every case (see the findings).
\<close>

definition txt_inv :: "AccountDB_TXT \<Rightarrow> bool" where
  "txt_inv d \<longleftrightarrow> db_inv (accounts d) \<and> auths_before_save d \<le> AUTHS_BEFORE_SAVE \<and> c_int (next_account_id d)"

definition keys_fresh :: "AccountDB_TXT \<Rightarrow> bool" where
  "keys_fresh d \<longleftrightarrow> (\<forall>k a. idb_get (accounts d) k = Some a \<longrightarrow> k < next_account_id d)"

definition keys_match :: "AccountDB_TXT \<Rightarrow> bool" where
  "keys_match d \<longleftrightarrow> (\<forall>k a. idb_get (accounts d) k = Some a \<longrightarrow> account_id a = k)"

text \<open>The account as it comes back from the file: registry entries without a key are not written.\<close>

definition canon_account :: "mmo_account \<Rightarrow> mmo_account" where
  "canon_account a = a\<lparr>account_reg2 := filter (\<lambda>r. str r \<noteq> []) (account_reg2 a)\<rparr>"

text \<open>
  A map that the file can hold: every account well-formed, its line shorter than the
  \<open>fgets\<close> buffer, keyed by its own id, below the counter, which is at least
  \<open>START_ACCOUNT_NUM\<close> and within the range of the C \<open>int\<close> it is.
\<close>

definition txt_storable :: "AccountDB_TXT \<Rightarrow> bool" where
  "txt_storable d \<longleftrightarrow>
     db_inv (accounts d) \<and> keys_match d \<and> keys_fresh d \<and> START_ACCOUNT_NUM \<le> next_account_id d \<and>
     next_account_id d < 2 ^ 31 \<and>
     (\<forall>a\<in>set (db_values (accounts d)). account_wf a \<and> length (mmo_auth_tostr a) < LINE_BUF - 1)"

text \<open>
  The world right after \<open>init\<close> on an empty file: empty map, counter at
  \<open>START_ACCOUNT_NUM\<close>, nothing dirty, timer registered.
\<close>

abbreviation txt_fresh_world :: txt_world where
  "txt_fresh_world \<equiv> \<lparr>db = txt_db_alloc\<lparr>save_timer := True\<rparr>, account_file = Some []\<rparr>"

text \<open>
  Files used by the findings: the example of the specification's testable properties, a
  file whose only account has the id \<open>START_ACCOUNT_NUM\<close> and no marker line, one whose
  only account has the id \<open>INT_MAX\<close>, one with only the marker line \<open>INT_MAX\<close>, and a
  second record for the id of the collision file.
\<close>

definition spec_example_lines :: "string list" where
 "spec_example_lines = [''20080409'', ''// comment'',
   ''1001'' @ [TAB] @ ''user1'' @ [TAB] @ ''pass1'' @ [TAB] @ ''M'' @ [TAB] @ ''u1@x.com'' @ [TAB] @ ''0'' @ [TAB] @ ''0''
     @ [TAB] @ ''0'' @ [TAB] @ ''0'' @ [TAB] @ ''3'' @ [TAB] @ ''2024-01-01'' @ [TAB] @ ''1.2.3.4'' @ [TAB] @ ''kk,vv '',
   ''1002'' @ [TAB] @ ''%newid%'']"

definition collision_lines :: "string list" where
 "collision_lines = [''20080409'',
   ''2000000'' @ [TAB] @ ''user1'' @ [TAB] @ ''pass1'' @ [TAB] @ ''M'' @ [TAB] @ ''a@a.com'' @ [TAB] @ ''0'' @ [TAB] @ ''0''
     @ [TAB] @ ''0'' @ [TAB] @ ''0'' @ [TAB] @ ''0'' @ [TAB] @ ''0'' @ [TAB] @ ''0'' @ [TAB]]"

definition overflow_lines :: "string list" where
 "overflow_lines = [''20080409'',
   ''2147483647'' @ [TAB] @ ''user1'' @ [TAB] @ ''pass1'' @ [TAB] @ ''M'' @ [TAB] @ ''a@a.com'' @ [TAB] @ ''0'' @ [TAB] @ ''0''
     @ [TAB] @ ''0'' @ [TAB] @ ''0'' @ [TAB] @ ''0'' @ [TAB] @ ''0'' @ [TAB] @ ''0'' @ [TAB]]"


definition dup_lines :: "string list" where
 "dup_lines = [
   ''2000000'' @ [TAB] @ ''user2'' @ [TAB] @ ''pass2'' @ [TAB] @ ''F'' @ [TAB] @ ''b@b.com'' @ [TAB] @ ''0'' @ [TAB] @ ''0''
     @ [TAB] @ ''0'' @ [TAB] @ ''0'' @ [TAB] @ ''0'' @ [TAB] @ ''0'' @ [TAB] @ ''0'' @ [TAB]]"

abbreviation file_of :: "string list \<Rightarrow> string" where
  "file_of ls \<equiv> concat (map (\<lambda>l. l @ [NL]) ls)"

abbreviation creates :: "bool \<Rightarrow> mmo_account list \<Rightarrow> (bool \<times> account_op) list" where
  "creates io accs \<equiv> map (\<lambda>a. (io, OpCreate a)) accs"

text \<open>
  What \<open>init\<close> keeps of the counter while it reads the file: the counter is an \<open>int\<close>, and
  either it is at least \<open>START_ACCOUNT_NUM\<close> and no smaller than any loaded key, or an
  account with the id \<open>INT_MAX\<close> was loaded (whose \<open>account_id + 1\<close> wrapped).
\<close>

abbreviation init_bounds :: "AccountDB_TXT \<Rightarrow> bool" where
  "init_bounds d \<equiv> c_int (next_account_id d) \<and>
     ((START_ACCOUNT_NUM \<le> next_account_id d \<and> (\<forall>k a. idb_get (accounts d) k = Some a \<longrightarrow> k \<le> next_account_id d))
      \<or> idb_get (accounts d) INT_MAX \<noteq> None)"

subsection \<open>Flushing\<close>

lemma mmo_auth_sync_db [simp]:
  "accounts (db (mmo_auth_sync io w)) = accounts (db w)"
  "next_account_id (db (mmo_auth_sync io w)) = next_account_id (db w)"
  "save_timer (db (mmo_auth_sync io w)) = save_timer (db w)"
  by (simp_all add: mmo_auth_sync_def)

lemma mmo_auth_sync_file:
  "account_file (mmo_auth_sync io w) = (if io then Some (mmo_auth_dump (db w)) else account_file w)"
  by (simp add: mmo_auth_sync_def)

lemma mmo_auth_sync_counter:
  "auths_before_save (db (mmo_auth_sync io w)) = (if io then AUTHS_BEFORE_SAVE else auths_before_save (db w))"
  by (simp add: mmo_auth_sync_def)

lemma mmo_auth_dump_counter [simp]: "mmo_auth_dump (d\<lparr>auths_before_save := c\<rparr>) = mmo_auth_dump d"
  by (simp add: mmo_auth_dump_def)

lemma mmo_auth_dump_timer [simp]: "mmo_auth_dump (d\<lparr>save_timer := t\<rparr>) = mmo_auth_dump d"
  by (simp add: mmo_auth_dump_def)

lemma mmo_auth_sync_db_eq:
  "db (mmo_auth_sync io w) = (if io then (db w)\<lparr>auths_before_save := AUTHS_BEFORE_SAVE\<rparr> else db w)"
  by (simp add: mmo_auth_sync_def)

lemmas sync_simps = mmo_auth_sync_db mmo_auth_sync_file mmo_auth_sync_counter

text \<open>Evaluation rules for the operations on concrete worlds.\<close>

lemmas txt_eval = account_db_txt_create_def account_db_txt_remove_def account_db_txt_save_def
  account_db_txt_load_num_def account_db_txt_load_str_def mmo_auth_sync_def mmo_auth_sync_timer_def
  txt_db_alloc_def idb_get_def idb_put_def idb_remove_def idb_alloc_def db_values_def
  START_ACCOUNT_NUM_def AUTHS_BEFORE_SAVE_def Let_def int32_def

subsection \<open>Create and remove\<close>

text \<open>
  C4: a successful \<open>create\<close> stores the account under the counter's old value, where a
  load finds it; it advances the counter by one, except that \<open>next_account_id++\<close> at
  \<open>INT_MAX\<close> wraps to \<open>INT_MIN\<close>; it leaves every other key alone, and when the file can
  be opened the file holds the dump of the new state.
\<close>

theorem txt_create_then_load:
  assumes ok: "account_db_txt_create io acc w = (True, w')" and rng: "c_int (next_account_id (db w))"
  shows "account_db_txt_load_num (next_account_id (db w)) w' = (True, acc)
       \<and> next_account_id (db w') =
           (if next_account_id (db w) = INT_MAX then INT_MIN else next_account_id (db w) + 1)
       \<and> (\<forall>k. k \<noteq> next_account_id (db w) \<longrightarrow> idb_get (accounts (db w')) k = idb_get (accounts (db w)) k)
       \<and> (io \<longrightarrow> account_file w' = Some (mmo_auth_dump (db w')))"
proof -
  let ?d = "db w"
  have free: "idb_get (accounts ?d) (next_account_id ?d) = None"
    using ok by (auto simp: account_db_txt_create_def Let_def split: if_splits)
  let ?w1 = "w\<lparr>db := ?d\<lparr>accounts := idb_put (accounts ?d) (next_account_id ?d) acc,
                          next_account_id := int32 (next_account_id ?d + 1)\<rparr>\<rparr>"
  have w': "w' = mmo_auth_sync io ?w1"
    using ok free by (simp add: account_db_txt_create_def Let_def)
  have "int32 (next_account_id ?d + 1) = (if next_account_id ?d = INT_MAX then INT_MIN else next_account_id ?d + 1)"
    using rng int32_INT_MAX_Suc by (auto simp: int32_succ c_int_def)
  then show ?thesis
    using w' by (simp add: account_db_txt_load_num_def sync_simps mmo_auth_sync_db_eq)
qed

theorem txt_create_then_load_witness:
  "account_db_txt_load_num 2000000 (snd (account_db_txt_create False zero_account txt_fresh_world))
     = (True, zero_account)"
  using txt_create_then_load [of False zero_account txt_fresh_world
      "snd (account_db_txt_create False zero_account txt_fresh_world)"]
  by (simp add: txt_eval c_int_def INT_MIN_def INT_MAX_def)

text \<open>C5: \<open>create\<close> fails exactly when the counter's id is taken, and then changes nothing.\<close>

theorem txt_create_fails:
  "account_db_txt_create io acc w = (False, w') \<longleftrightarrow>
     idb_get (accounts (db w)) (next_account_id (db w)) \<noteq> None \<and> w' = w"
  by (auto simp: account_db_txt_create_def Let_def)

text \<open>
  C6: after a successful \<open>remove\<close> the id loads as not found (with a zeroed buffer), every
  other key is unchanged, and a successful flush wrote the new state.
\<close>

theorem txt_remove_then_load:
  assumes ok: "account_db_txt_remove io aid w = (True, w')"
  shows "account_db_txt_load_num aid w' = (False, zero_account)
       \<and> (\<forall>k. k \<noteq> aid \<longrightarrow> idb_get (accounts (db w')) k = idb_get (accounts (db w)) k)
       \<and> (io \<longrightarrow> account_file w' = Some (mmo_auth_dump (db w')))"
proof -
  have present: "idb_get (accounts (db w)) aid \<noteq> None"
    using ok by (auto simp: account_db_txt_remove_def idb_remove_fst [symmetric] split: prod.splits if_splits)
  have w': "w' = mmo_auth_sync io (w\<lparr>db := (db w)\<lparr>accounts := snd (idb_remove (accounts (db w)) aid)\<rparr>\<rparr>)"
    using ok present by (auto simp: account_db_txt_remove_def idb_remove_fst [symmetric] split: prod.splits if_splits)
  show ?thesis
    using w' by (simp add: account_db_txt_load_num_def sync_simps mmo_auth_sync_db_eq)
qed

theorem txt_remove_then_load_witness:
  "account_db_txt_load_num 2000000
     (snd (account_db_txt_remove False 2000000 (snd (account_db_txt_create False zero_account txt_fresh_world))))
   = (False, zero_account)"
  using txt_remove_then_load [of False 2000000 "snd (account_db_txt_create False zero_account txt_fresh_world)"
      "snd (account_db_txt_remove False 2000000 (snd (account_db_txt_create False zero_account txt_fresh_world)))"]
  by (simp add: txt_eval)

text \<open>C7: \<open>remove\<close> fails exactly when the id is absent, and then changes nothing.\<close>

theorem txt_remove_fails:
  "account_db_txt_remove io aid w = (False, w') \<longleftrightarrow> idb_get (accounts (db w)) aid = None \<and> w' = w"
  by (auto simp: account_db_txt_remove_def idb_remove_fst [symmetric] split: prod.splits)

subsection \<open>Save and write-behind\<close>

lemma save_ok_present:
  "account_db_txt_save io acc w = (True, w') \<Longrightarrow> idb_get (accounts (db w)) (account_id acc) \<noteq> None"
  by (auto simp: account_db_txt_save_def Let_def split: if_splits)

lemma save_ok_eq:
  assumes "account_db_txt_save io acc w = (True, w')"
  shows "w' = (if auths_before_save (db w) = 1
               then mmo_auth_sync io (w\<lparr>db := (db w)\<lparr>accounts := idb_put (accounts (db w)) (account_id acc) acc,
                                    auths_before_save := auths_before_save (db w) - 1\<rparr>\<rparr>)
               else w\<lparr>db := (db w)\<lparr>accounts := idb_put (accounts (db w)) (account_id acc) acc,
                                    auths_before_save := auths_before_save (db w) - 1\<rparr>\<rparr>)"
  using assms save_ok_present [OF assms(1)] by (auto simp: account_db_txt_save_def Let_def)

lemma txt_save_counter:
  assumes ok: "account_db_txt_save io acc w = (True, w')"
  shows "(auths_before_save (db w) = 1 \<longrightarrow>
            account_file w' = (if io then Some (mmo_auth_dump (db w')) else account_file w) \<and>
            auths_before_save (db w') = (if io then AUTHS_BEFORE_SAVE else 0))
       \<and> (auths_before_save (db w) \<noteq> 1 \<longrightarrow>
            account_file w' = account_file w \<and> auths_before_save (db w') = auths_before_save (db w) - 1)"
  using save_ok_eq [OF ok] by (simp add: sync_simps mmo_auth_sync_db_eq)

lemma txt_save_accounts:
  "account_db_txt_save io acc w = (True, w') \<Longrightarrow>
   accounts (db w') = idb_put (accounts (db w)) (account_id acc) acc"
  by (drule save_ok_eq, cases "auths_before_save (db w) = 1") (simp_all add: sync_simps)

lemma txt_save_dom:
  assumes ok: "account_db_txt_save io acc w = (True, w')"
  shows "idb_get (accounts (db w')) k \<noteq> None \<longleftrightarrow> idb_get (accounts (db w)) k \<noteq> None"
  using save_ok_present [OF ok] by (simp add: txt_save_accounts [OF ok])

lemma txt_save_succeeds:
  "idb_get (accounts (db w)) (account_id acc) \<noteq> None \<Longrightarrow> fst (account_db_txt_save io acc w) = True"
  by (simp add: account_db_txt_save_def Let_def)

lemma txt_save_next:
  "account_db_txt_save io acc w = (True, w') \<Longrightarrow> next_account_id (db w') = next_account_id (db w)"
  by (drule save_ok_eq, cases "auths_before_save (db w) = 1") (simp_all add: sync_simps)

text \<open>
  C8: a successful \<open>save\<close> replaces the stored account under its own id, where a load
  finds it; every other key and the counter are unchanged.
\<close>

theorem txt_save_then_load:
  assumes ok: "account_db_txt_save io acc w = (True, w')"
  shows "account_db_txt_load_num (account_id acc) w' = (True, acc)
       \<and> (\<forall>k. k \<noteq> account_id acc \<longrightarrow> idb_get (accounts (db w')) k = idb_get (accounts (db w)) k)
       \<and> next_account_id (db w') = next_account_id (db w)"
  using save_ok_eq [OF ok] by (simp add: account_db_txt_load_num_def sync_simps mmo_auth_sync_db_eq)

theorem txt_save_then_load_witness:
  "account_db_txt_load_num 2000000
     (snd (account_db_txt_save False (zero_account\<lparr>account_id := 2000000, logincount := 1\<rparr>)
        (snd (account_db_txt_create False zero_account txt_fresh_world))))
   = (True, zero_account\<lparr>account_id := 2000000, logincount := 1\<rparr>)"
  using txt_save_then_load [of False "zero_account\<lparr>account_id := 2000000, logincount := 1\<rparr>"
      "snd (account_db_txt_create False zero_account txt_fresh_world)"
      "snd (account_db_txt_save False (zero_account\<lparr>account_id := 2000000, logincount := 1\<rparr>)
        (snd (account_db_txt_create False zero_account txt_fresh_world)))"]
  by (simp add: txt_eval zero_account_def)

text \<open>C9: \<open>save\<close> fails exactly when the account's id is not stored, and then changes nothing.\<close>

theorem txt_save_fails:
  "account_db_txt_save io acc w = (False, w') \<longleftrightarrow> idb_get (accounts (db w)) (account_id acc) = None \<and> w' = w"
  by (auto simp: account_db_txt_save_def Let_def)

text \<open>A run of saves of stored accounts, each with a working file system.\<close>

abbreviation saves :: "mmo_account list \<Rightarrow> (bool \<times> account_op) list" where
  "saves accs \<equiv> map (\<lambda>a. (True, OpSave a)) accs"

lemma txt_run_saves_pending:
  "int (length accs) < auths_before_save (db w) \<Longrightarrow>
   \<forall>a\<in>set accs. idb_get (accounts (db w)) (account_id a) \<noteq> None \<Longrightarrow>
   account_file (txt_run (saves accs) w) = account_file w \<and>
   auths_before_save (db (txt_run (saves accs) w)) = auths_before_save (db w) - int (length accs)"
proof (induction accs arbitrary: w)
  case Nil
  then show ?case by simp
next
  case (Cons a accs)
  obtain w' where ok: "account_db_txt_save True a w = (True, w')"
    using txt_save_succeeds [of w a True] Cons.prems(2) by (cases "account_db_txt_save True a w") auto
  have c: "auths_before_save (db w) \<noteq> 1" using Cons.prems(1) by simp
  with txt_save_counter [OF ok] have f: "account_file w' = account_file w"
    and cnt: "auths_before_save (db w') = auths_before_save (db w) - 1" by auto
  have "int (length accs) < auths_before_save (db w')" using Cons.prems(1) cnt by simp
  moreover have "\<forall>b\<in>set accs. idb_get (accounts (db w')) (account_id b) \<noteq> None"
    using Cons.prems(2) txt_save_dom [OF ok] by auto
  ultimately have "account_file (txt_run (saves accs) w') = account_file w' \<and>
      auths_before_save (db (txt_run (saves accs) w')) = auths_before_save (db w') - int (length accs)"
    by (rule Cons.IH)
  with ok f cnt show ?case by simp
qed

text \<open>
  C10: write-behind. From a counter of \<open>N > 0\<close>, \<open>N\<close> successful saves leave the file
  untouched until the \<open>N\<close>-th, which writes the dump of the state it leaves.
\<close>

theorem txt_saves_flush:
  assumes "auths_before_save (db w) = int (length accs)" and "accs \<noteq> []"
    and "\<forall>a\<in>set accs. idb_get (accounts (db w)) (account_id a) \<noteq> None"
  shows "account_file (txt_run (saves (butlast accs)) w) = account_file w
       \<and> account_file (txt_run (saves accs) w) = Some (mmo_auth_dump (db (txt_run (saves accs) w)))"
  using assms
proof (induction accs arbitrary: w)
  case Nil
  then show ?case by simp
next
  case (Cons a accs)
  obtain w' where ok: "account_db_txt_save True a w = (True, w')"
    using txt_save_succeeds [of w a True] Cons.prems(3) by (cases "account_db_txt_save True a w") auto
  show ?case
  proof (cases "accs = []")
    case True
    with Cons.prems(1) have "auths_before_save (db w) = 1" by simp
    with txt_save_counter [OF ok] True ok show ?thesis by simp
  next
    case False
    then have c: "auths_before_save (db w) \<noteq> 1" using Cons.prems(1) by simp
    with txt_save_counter [OF ok] have f: "account_file w' = account_file w"
      and cnt: "auths_before_save (db w') = auths_before_save (db w) - 1" by auto
    have "\<forall>b\<in>set accs. idb_get (accounts (db w')) (account_id b) \<noteq> None"
      using Cons.prems(3) txt_save_dom [OF ok] by auto
    moreover have "auths_before_save (db w') = int (length accs)" using Cons.prems(1) cnt by simp
    ultimately have "account_file (txt_run (saves (butlast accs)) w') = account_file w'
       \<and> account_file (txt_run (saves accs) w') = Some (mmo_auth_dump (db (txt_run (saves accs) w')))"
      using Cons.IH False by blast
    with ok f False show ?thesis by simp
  qed
qed

theorem txt_saves_flush_witness:
  "account_file (txt_run (saves [zero_account\<lparr>account_id := 7\<rparr>, zero_account\<lparr>account_id := 7\<rparr>])
      \<lparr>db = \<lparr>accounts = [(7, zero_account)], next_account_id = 8, auths_before_save = 2, save_timer = True\<rparr>,
       account_file = Some []\<rparr>)
   = Some (mmo_auth_dump (db (txt_run (saves [zero_account\<lparr>account_id := 7\<rparr>, zero_account\<lparr>account_id := 7\<rparr>])
      \<lparr>db = \<lparr>accounts = [(7, zero_account)], next_account_id = 8, auths_before_save = 2, save_timer = True\<rparr>,
       account_file = Some []\<rparr>)))"
  using txt_saves_flush [of "\<lparr>db = \<lparr>accounts = [(7, zero_account)], next_account_id = 8, auths_before_save = 2,
      save_timer = True\<rparr>, account_file = Some []\<rparr>" "[zero_account\<lparr>account_id := 7\<rparr>, zero_account\<lparr>account_id := 7\<rparr>]"]
  by (simp add: idb_get_def)

text \<open>
  C11: the periodic timer flushes exactly when the counter shows a modification since
  the last flush: a clean database is left as it is, a dirty one is written and marked
  clean.
\<close>

theorem txt_timer_flush:
  "(auths_before_save (db w) = AUTHS_BEFORE_SAVE \<longrightarrow> mmo_auth_sync_timer io w = w)
   \<and> (auths_before_save (db w) < AUTHS_BEFORE_SAVE \<longrightarrow>
        account_file (mmo_auth_sync_timer True w) = Some (mmo_auth_dump (db w)) \<and>
        auths_before_save (db (mmo_auth_sync_timer True w)) = AUTHS_BEFORE_SAVE)"
  by (simp add: mmo_auth_sync_timer_def sync_simps)

theorem txt_timer_flush_witness:
  "mmo_auth_sync_timer False txt_fresh_world = txt_fresh_world \<and>
   account_file (mmo_auth_sync_timer True (txt_fresh_world\<lparr>db := txt_db_alloc\<lparr>auths_before_save := 9\<rparr>\<rparr>))
     = Some (mmo_auth_dump (txt_db_alloc\<lparr>auths_before_save := 9\<rparr>))"
  using txt_timer_flush [of txt_fresh_world False]
    txt_timer_flush [of "txt_fresh_world\<lparr>db := txt_db_alloc\<lparr>auths_before_save := 9\<rparr>\<rparr>" False]
  by (simp add: txt_db_alloc_def AUTHS_BEFORE_SAVE_def)

text \<open>
  C12: \<open>load_str\<close> reports not found (zeroing the buffer) exactly when no stored account has
  the name, and whatever it returns is a stored account with that name.
\<close>

theorem txt_load_str_spec:
  assumes "db_inv (accounts (db w))"
  shows "(account_db_txt_load_str n w = (False, zero_account) \<longleftrightarrow>
            (\<forall>k a. idb_get (accounts (db w)) k = Some a \<longrightarrow> userid a \<noteq> n))
       \<and> (account_db_txt_load_str n w = (True, a) \<longrightarrow>
            (\<exists>k. idb_get (accounts (db w)) k = Some a \<and> userid a = n))"
proof -
  have "find (\<lambda>a. n = userid a) (db_values (accounts (db w))) = Some a \<Longrightarrow>
        \<exists>k. idb_get (accounts (db w)) k = Some a \<and> userid a = n"
    using find_db_values [OF assms] by fastforce
  moreover have "find (\<lambda>a. n = userid a) (db_values (accounts (db w))) = None \<longleftrightarrow>
        (\<forall>k a. idb_get (accounts (db w)) k = Some a \<longrightarrow> userid a \<noteq> n)"
    using find_db_values_None [OF assms] by fastforce
  ultimately show ?thesis
    by (auto simp: account_db_txt_load_str_def split: option.splits)
qed

theorem txt_load_str_spec_witness:
  "account_db_txt_load_str ''bob'' txt_fresh_world = (False, zero_account)"
  using txt_load_str_spec [of txt_fresh_world "''bob''" zero_account]
  by (simp add: txt_db_alloc_def idb_alloc_def db_inv_def idb_get_def)

subsection \<open>Invariants of the state machine\<close>

lemma create_cases:
  "account_db_txt_create io acc w = (b, w') \<Longrightarrow>
   (b \<and> idb_get (accounts (db w)) (next_account_id (db w)) = None \<and>
    w' = mmo_auth_sync io (w\<lparr>db := (db w)\<lparr>accounts := idb_put (accounts (db w)) (next_account_id (db w)) acc,
                                   next_account_id := int32 (next_account_id (db w) + 1)\<rparr>\<rparr>))
   \<or> (\<not> b \<and> w' = w)"
  by (auto simp: account_db_txt_create_def Let_def split: if_splits)

lemma remove_cases:
  "account_db_txt_remove io aid w = (b, w') \<Longrightarrow>
   (b \<and> w' = mmo_auth_sync io (w\<lparr>db := (db w)\<lparr>accounts := snd (idb_remove (accounts (db w)) aid)\<rparr>\<rparr>))
   \<or> (\<not> b \<and> w' = w)"
  by (auto simp: account_db_txt_remove_def split: prod.splits if_splits)

lemma save_cases:
  "account_db_txt_save io acc w = (b, w') \<Longrightarrow> (b \<and> account_db_txt_save io acc w = (True, w')) \<or> (\<not> b \<and> w' = w)"
  by (cases b) (auto simp: account_db_txt_save_def Let_def split: if_splits)

lemma txt_save_counter_le:
  "account_db_txt_save io acc w = (True, w') \<Longrightarrow> auths_before_save (db w) \<le> AUTHS_BEFORE_SAVE \<Longrightarrow>
   auths_before_save (db w') \<le> AUTHS_BEFORE_SAVE"
  by (drule save_ok_eq, cases "auths_before_save (db w) = 1") (simp_all add: sync_simps AUTHS_BEFORE_SAVE_def)

lemma account_db_txt_cases:
  "account_db_txt io op w = (r, w') \<Longrightarrow>
     (\<exists>acc b. op = OpCreate acc \<and> account_db_txt_create io acc w = (b, w'))
   \<or> (\<exists>aid b. op = OpRemove aid \<and> account_db_txt_remove io aid w = (b, w'))
   \<or> (\<exists>acc b. op = OpSave acc \<and> account_db_txt_save io acc w = (b, w'))
   \<or> (op = OpTimer \<and> w' = mmo_auth_sync_timer io w)
   \<or> w' = w"
  by (cases op) (auto split: prod.splits)

lemma txt_step_op:
  "txt_step w w' \<Longrightarrow> \<exists>io op r. account_db_txt io op w = (r, w')"
proof (induction rule: txt_step.induct)
  case (call op w io)
  then show ?case by (metis prod.collapse)
next
  case (timer w io)
  then show ?case by (metis prod.collapse)
qed

lemma txt_step_inv:
  assumes "txt_step w w'" and "txt_inv (db w)"
  shows "txt_inv (db w')"
proof -
  obtain io op r where eq: "account_db_txt io op w = (r, w')"
    using txt_step_op [OF assms(1)] by blast
  have inv: "db_inv (accounts (db w))" "auths_before_save (db w) \<le> AUTHS_BEFORE_SAVE"
    "c_int (next_account_id (db w))"
    using assms(2) by (auto simp: txt_inv_def)
  from account_db_txt_cases [OF eq] show ?thesis
  proof (elim disjE exE conjE)
    fix acc b assume "account_db_txt_create io acc w = (b, w')"
    from create_cases [OF this] inv show ?thesis
      by (auto simp: txt_inv_def sync_simps AUTHS_BEFORE_SAVE_def)
  next
    fix aid b assume "account_db_txt_remove io aid w = (b, w')"
    from remove_cases [OF this] inv show ?thesis
      by (auto simp: txt_inv_def sync_simps AUTHS_BEFORE_SAVE_def)
  next
    fix acc b assume "account_db_txt_save io acc w = (b, w')"
    from save_cases [OF this] inv show ?thesis
      by (auto simp: txt_inv_def txt_save_accounts txt_save_counter_le txt_save_next)
  next
    assume "w' = mmo_auth_sync_timer io w"
    with inv show ?thesis
      by (auto simp: txt_inv_def mmo_auth_sync_timer_def sync_simps)
  next
    assume "w' = w"
    with assms(2) show ?thesis by simp
  qed
qed

text \<open>
  C3: every step keeps the counter fresh: when every stored key is below
  \<open>next_account_id\<close> and the counter is an \<open>int\<close> below \<open>INT_MAX\<close>, every key is still
  below it after any call or timer firing. (A world loaded from a file need not start
  fresh, and at \<open>INT_MAX\<close> the increment wraps: see the findings.)
\<close>

theorem txt_step_fresh:
  assumes "txt_step w w'" and "keys_fresh (db w)" and "txt_inv (db w)" and "next_account_id (db w) \<noteq> INT_MAX"
  shows "keys_fresh (db w')"
proof -
  have nx: "int32 (next_account_id (db w) + 1) = next_account_id (db w) + 1"
    using assms(3,4) by (auto simp: txt_inv_def c_int_def intro: int32_succ)
  obtain io op r where eq: "account_db_txt io op w = (r, w')"
    using txt_step_op [OF assms(1)] by blast
  from account_db_txt_cases [OF eq] show ?thesis
  proof (elim disjE exE conjE)
    fix acc b assume "account_db_txt_create io acc w = (b, w')"
    from create_cases [OF this] assms(2) nx show ?thesis
      by (fastforce simp: keys_fresh_def sync_simps split: if_splits)
  next
    fix aid b assume "account_db_txt_remove io aid w = (b, w')"
    from remove_cases [OF this] assms(2) show ?thesis
      by (fastforce simp: keys_fresh_def sync_simps split: if_splits)
  next
    fix acc b assume s: "account_db_txt_save io acc w = (b, w')"
    from save_cases [OF s] assms(2) show ?thesis
    proof (elim disjE conjE)
      assume ok: "account_db_txt_save io acc w = (True, w')"
      then have "idb_get (accounts (db w)) (account_id acc) \<noteq> None" by (rule save_ok_present)
      with assms(2) show ?thesis
        by (auto simp: keys_fresh_def txt_save_accounts [OF ok] txt_save_next [OF ok])
    qed auto
  next
    assume "w' = mmo_auth_sync_timer io w"
    with assms(2) show ?thesis
      by (auto simp: keys_fresh_def mmo_auth_sync_timer_def sync_simps)
  next
    assume "w' = w"
    with assms(2) show ?thesis by simp
  qed
qed

lemma newid_line_c_int: "newid_line l = Some v \<Longrightarrow> c_int v"
  by (auto simp: newid_line_def split: option.splits list.splits if_splits dest: scan_d_c_int)

lemma init_line_inv:
  "txt_inv d \<Longrightarrow> txt_inv (snd (init_line (v, d) l))"
  by (auto simp: init_line_def load_account_line_def txt_inv_def
           split: option.splits if_splits dest: newid_line_c_int)

lemma foldl_init_line_inv:
  "txt_inv (snd st) \<Longrightarrow> txt_inv (snd (foldl init_line st ls))"
proof (induction ls arbitrary: st)
  case Nil
  then show ?case by simp
next
  case (Cons l ls)
  obtain v d where st: "st = (v, d)" by (cases st)
  from Cons.prems st have "txt_inv (snd (init_line (v, d) l))" by (simp add: init_line_inv)
  then show ?case using Cons.IH st by simp
qed

lemma txt_init_inv:
  "account_db_txt_init (Some f) = (True, d) \<Longrightarrow> txt_inv d"
proof -
  assume h: "account_db_txt_init (Some f) = (True, d)"
  have "txt_inv txt_db_alloc" by (simp add: txt_inv_def txt_db_alloc_def c_int_def INT_MIN_def INT_MAX_def START_ACCOUNT_NUM_def)
  then have "txt_inv (snd (foldl init_line (0, txt_db_alloc) (fgets_lines f)))"
    by (intro foldl_init_line_inv) simp
  with h show ?thesis by (auto simp: account_db_txt_init_def txt_inv_def)
qed

text \<open>
  C2: every reachable world (a successful \<open>init\<close> on any file, then any sequence of calls,
  timer firings and file-system outcomes) has a map with distinct keys, a dirty counter
  at most \<open>AUTHS_BEFORE_SAVE\<close>, and an auto-increment counter within the \<open>int\<close> range.
\<close>

theorem txt_reachable_inv:
  "txt_reachable w \<Longrightarrow> txt_inv (db w)"
proof (induction rule: txt_reachable.induct)
  case (init f d)
  then show ?case by (simp add: txt_init_inv)
next
  case (step w w')
  then show ?case using txt_step_inv by blast
qed

theorem txt_reachable_inv_witness:
  "txt_inv (db (snd (account_db_txt True (OpCreate zero_account) txt_fresh_world)))"
proof -
  have "txt_reachable txt_fresh_world"
    using txt_reachable.init [of "[]" "txt_db_alloc\<lparr>save_timer := True\<rparr>"]
    by (simp add: account_db_txt_init_def)
  then have "txt_reachable (snd (account_db_txt True (OpCreate zero_account) txt_fresh_world))"
    by (rule txt_reachable.step) (rule txt_step.call, simp)
  then show ?thesis by (rule txt_reachable_inv)
qed

theorem txt_step_fresh_witness:
  "keys_fresh (db (snd (account_db_txt False (OpCreate zero_account) txt_fresh_world)))"
proof (rule txt_step_fresh)
  show "txt_step txt_fresh_world (snd (account_db_txt False (OpCreate zero_account) txt_fresh_world))"
    by (rule txt_step.call) simp
qed (simp_all add: keys_fresh_def txt_inv_def db_inv_def txt_db_alloc_def idb_alloc_def idb_get_def c_int_def
      INT_MIN_def INT_MAX_def START_ACCOUNT_NUM_def AUTHS_BEFORE_SAVE_def)

lemmas init_eval = account_db_txt_init_def init_line_def is_comment_line_def version_line_def newid_line_def
      load_account_line_def mmo_auth_fromstr_def cstr_simps codec_simps parse_regs.simps txt_db_alloc_def
      idb_get_def idb_put_def idb_alloc_def START_ACCOUNT_NUM_def AUTHS_BEFORE_SAVE_def

lemma spec_example_init:
  "account_db_txt_init (Some (file_of spec_example_lines)) = (True,
   \<lparr>accounts = [(1001, zero_account\<lparr>account_id := 1001, userid := ''user1'', pass := ''pass1'', sex := CHR ''M'',
        email := ''u1@x.com'', logincount := 3, lastlogin := ''2024-01-01'', last_ip := ''1.2.3.4'',
        account_reg2 := [\<lparr>str = ''kk'', reg_value = ''vv''\<rparr>]\<rparr>)],
    next_account_id = 2000000, auths_before_save = 10, save_timer = True\<rparr>)"
proof -
  have "fgets_lines (file_of spec_example_lines) = map (\<lambda>l. l @ [NL]) spec_example_lines"
    by (rule fgets_lines_lines) (simp add: spec_example_lines_def LINE_BUF_def)
  then show ?thesis
    by (simp add: init_eval spec_example_lines_def)
qed

lemma collision_init:
  "account_db_txt_init (Some (file_of collision_lines)) = (True,
   \<lparr>accounts = [(2000000, zero_account\<lparr>account_id := 2000000, userid := ''user1'', pass := ''pass1'', sex := CHR ''M'',
        email := ''a@a.com'', lastlogin := ''0'', last_ip := ''0''\<rparr>)],
    next_account_id = 2000000, auths_before_save = 10, save_timer = True\<rparr>)"
proof -
  have fg: "fgets_lines (file_of collision_lines) = map (\<lambda>l. l @ [NL]) collision_lines"
    by (rule fgets_lines_lines) (simp add: collision_lines_def LINE_BUF_def)
  show ?thesis
    unfolding account_db_txt_init_def option.case fg
    by (simp add: init_eval collision_lines_def)
qed

lemma txt_run_creates_stuck:
  "idb_get (accounts (db w)) (next_account_id (db w)) \<noteq> None \<Longrightarrow> txt_run (creates io accs) w = w"
proof (induction accs)
  case Nil
  then show ?case by simp
next
  case (Cons a accs)
  then have "account_db_txt_create io a w = (False, w)" by (simp add: txt_create_fails)
  with Cons show ?case by simp
qed

text \<open>
  C14: a file whose account id equals the counter's value and that has no
  marker line loads into a reachable world whose counter names a stored key (init raises
  the counter only when it is strictly below a loaded id); from there every sequence of
  \<open>create\<close> calls fails and changes nothing, so no account can ever be created.
\<close>

theorem txt_init_counter_taken:
  "txt_reachable \<lparr>db = snd (account_db_txt_init (Some (file_of collision_lines))),
                  account_file = Some (file_of collision_lines)\<rparr>
   \<and> \<not> keys_fresh (snd (account_db_txt_init (Some (file_of collision_lines))))
   \<and> (\<forall>io accs. txt_run (creates io accs) \<lparr>db = snd (account_db_txt_init (Some (file_of collision_lines))),
                  account_file = Some (file_of collision_lines)\<rparr>
        = \<lparr>db = snd (account_db_txt_init (Some (file_of collision_lines))), account_file = Some (file_of collision_lines)\<rparr>)"
proof -
  let ?d = "snd (account_db_txt_init (Some (file_of collision_lines)))"
  have r: "txt_reachable \<lparr>db = ?d, account_file = Some (file_of collision_lines)\<rparr>"
    by (rule txt_reachable.init) (simp add: collision_init)
  have taken: "idb_get (accounts ?d) (next_account_id ?d) \<noteq> None"
    by (simp add: collision_init idb_get_def)
  then have "\<not> keys_fresh ?d" by (auto simp: keys_fresh_def)
  with r taken show ?thesis by (simp add: txt_run_creates_stuck)
qed


subsection \<open>Loading bounds and findings\<close>

lemma fromstr_c_int: "mmo_auth_fromstr l v = Some a \<Longrightarrow> c_int (account_id a)"
  by (auto simp: mmo_auth_fromstr_def auth_layout_def Let_def split: option.splits if_splits)

lemma load_line_bounds:
  assumes "init_bounds d"
  shows "init_bounds (load_account_line v d l)"
proof (cases "mmo_auth_fromstr l v")
  case None
  with assms show ?thesis by (simp add: load_account_line_def)
next
  case (Some acc)
  have ci: "c_int (account_id acc)" using fromstr_c_int [OF Some] .
  show ?thesis
  proof (cases "idb_get (accounts d) (account_id acc) = None")
    case False
    with assms Some show ?thesis by (simp add: load_account_line_def)
  next
    case free: True
    let ?k = "account_id acc"
    have get: "idb_get (accounts (load_account_line v d l)) k =
                 (if k = ?k then Some acc else idb_get (accounts d) k)" for k
      using Some free by (simp add: load_account_line_def)
    have nx: "next_account_id (load_account_line v d l) =
                (if next_account_id d < ?k then int32 (?k + 1) else next_account_id d)"
      using Some free by (simp add: load_account_line_def)
    show ?thesis
    proof (cases "next_account_id d < ?k \<and> ?k = INT_MAX")
      case True
      then show ?thesis using get nx by simp
    next
      case False
      then have "next_account_id d < ?k \<Longrightarrow> int32 (?k + 1) = ?k + 1 \<and> c_int (?k + 1)"
        using ci by (auto simp: c_int_def INT_MIN_def INT_MAX_def)
      then show ?thesis using assms get nx ci False by (auto split: if_splits)
    qed
  qed
qed

lemma init_line_bounds:
  assumes "init_bounds d"
  shows "init_bounds (snd (init_line (v, d) l))"
proof -
  have nl: "init_bounds (d\<lparr>next_account_id := aid\<rparr>)" if "newid_line l = Some aid" "next_account_id d < aid" for aid
    using assms that newid_line_c_int [OF that(1)] by auto
  show ?thesis
    using assms nl load_line_bounds [OF assms, of v l]
    by (auto simp: init_line_def split: option.splits)
qed

lemma foldl_init_line_bounds:
  "init_bounds (snd st) \<Longrightarrow> init_bounds (snd (foldl init_line st ls))"
proof (induction ls arbitrary: st)
  case Nil
  then show ?case by simp
next
  case (Cons l ls)
  obtain v d where st: "st = (v, d)" by (cases st)
  from Cons.prems st init_line_bounds [of d v l] show ?case
    using Cons.IH [of "init_line (v, d) l"] by simp
qed

text \<open>
  C15: after \<open>init\<close> the counter is an \<open>int\<close>, and either it is at least
  \<open>START_ACCOUNT_NUM\<close> with every loaded key at most the counter (not below it: equality
  is possible, see C14), or the file held an account with the id \<open>INT_MAX\<close>, whose
  \<open>account_id + 1\<close> (line 149) wrapped the counter.
\<close>

theorem txt_init_bounds:
  assumes "account_db_txt_init (Some f) = (True, d)"
  shows "c_int (next_account_id d) \<and>
         ((START_ACCOUNT_NUM \<le> next_account_id d \<and> (\<forall>k a. idb_get (accounts d) k = Some a \<longrightarrow> k \<le> next_account_id d))
          \<or> idb_get (accounts d) INT_MAX \<noteq> None)"
proof -
  have "init_bounds (snd (0::int, txt_db_alloc))"
    by (simp add: txt_db_alloc_def c_int_def INT_MIN_def INT_MAX_def START_ACCOUNT_NUM_def)
  then have "init_bounds (snd (foldl init_line (0, txt_db_alloc) (fgets_lines f)))"
    by (rule foldl_init_line_bounds)
  with assms show ?thesis by (auto simp: account_db_txt_init_def)
qed

lemma overflow_init:
  "account_db_txt_init (Some (file_of overflow_lines)) = (True,
   \<lparr>accounts = [(INT_MAX, zero_account\<lparr>account_id := INT_MAX, userid := ''user1'', pass := ''pass1'', sex := CHR ''M'',
        email := ''a@a.com'', lastlogin := ''0'', last_ip := ''0''\<rparr>)],
    next_account_id = INT_MIN, auths_before_save = 10, save_timer = True\<rparr>)"
proof -
  have fg: "fgets_lines (file_of overflow_lines) = map (\<lambda>l. l @ [NL]) overflow_lines"
    by (rule fgets_lines_lines) (simp add: overflow_lines_def LINE_BUF_def)
  show ?thesis
    unfolding account_db_txt_init_def option.case fg
    by (simp add: init_eval overflow_lines_def INT_MIN_def INT_MAX_def)
qed

theorem txt_init_bounds_witness:
  "next_account_id (snd (account_db_txt_init (Some (file_of overflow_lines)))) = INT_MIN \<and>
   idb_get (accounts (snd (account_db_txt_init (Some (file_of overflow_lines))))) INT_MAX \<noteq> None"
  using txt_init_bounds [OF overflow_init]
  by (simp add: overflow_init idb_get_def INT_MIN_def INT_MAX_def START_ACCOUNT_NUM_def)

text \<open>
  C18: when the flush of a \<open>create\<close> fails on a clean database, the new account is only
  in memory, the file is unchanged, and the counter still reads clean, so the periodic
  timer never writes it.
\<close>

theorem txt_create_flush_lost:
  assumes clean: "auths_before_save (db w) = AUTHS_BEFORE_SAVE"
    and ok: "account_db_txt_create False acc w = (True, w')"
  shows "idb_get (accounts (db w')) (next_account_id (db w)) = Some acc
       \<and> account_file w' = account_file w
       \<and> mmo_auth_sync_timer io w' = w'"
proof -
  from create_cases [OF ok] have "w' = w\<lparr>db := (db w)\<lparr>accounts := idb_put (accounts (db w)) (next_account_id (db w)) acc,
                                   next_account_id := int32 (next_account_id (db w) + 1)\<rparr>\<rparr>"
    by (simp add: mmo_auth_sync_def)
  with clean show ?thesis by (simp add: mmo_auth_sync_timer_def)
qed

theorem txt_create_flush_lost_witness:
  "account_file (snd (account_db_txt_create False zero_account txt_fresh_world)) = Some [] \<and>
   mmo_auth_sync_timer True (snd (account_db_txt_create False zero_account txt_fresh_world))
     = snd (account_db_txt_create False zero_account txt_fresh_world)"
  using txt_create_flush_lost [of txt_fresh_world zero_account "snd (account_db_txt_create False zero_account txt_fresh_world)" True]
  by (simp add: txt_eval)

text \<open>
  C19: once a failed flush has left the dirty counter at zero or below, no further
  \<open>save\<close> flushes: the counter only decreases and never meets zero again.
\<close>

theorem txt_save_counter_spent:
  assumes "auths_before_save (db w) \<le> 0" and "account_db_txt_save io acc w = (True, w')"
  shows "account_file w' = account_file w \<and> auths_before_save (db w') < 0"
  using assms txt_save_counter [OF assms(2)] by auto

theorem txt_save_counter_spent_witness:
  "account_file (snd (account_db_txt_save True zero_account
      \<lparr>db = \<lparr>accounts = [(0, zero_account)], next_account_id = 1, auths_before_save = 0, save_timer = True\<rparr>,
       account_file = Some []\<rparr>)) = Some []"
  using txt_save_counter_spent [of "\<lparr>db = \<lparr>accounts = [(0, zero_account)], next_account_id = 1, auths_before_save = 0,
      save_timer = True\<rparr>, account_file = Some []\<rparr>" True zero_account
      "snd (account_db_txt_save True zero_account
      \<lparr>db = \<lparr>accounts = [(0, zero_account)], next_account_id = 1, auths_before_save = 0, save_timer = True\<rparr>,
       account_file = Some []\<rparr>)"]
  by (simp add: txt_eval)

subsection \<open>Durability: the dump read back\<close>

lemma show_int_not_comment: "\<not> is_comment_line (show_int i @ rest)"
  using show_int_hd [of i] by (auto simp: is_comment_line_def c_isdigit_def)

lemma version_line_show_int: "c_int i \<Longrightarrow> version_line (show_int i @ NL # rest) = Some i"
  using scan_d_show_int [of "NL # rest" i] by (simp add: version_line_def c_isdigit_def)

lemma version_line_account: "version_line (show_int i @ TAB # rest) = None"
  using scan_d_show_int_len [of "TAB # rest" i] by (auto simp: version_line_def c_isdigit_def)

lemma newid_line_Some:
  assumes "newid_line l = Some v" and "scan_d l = Some (v', n)"
  shows "\<exists>r t. dropWhile c_isspace (drop n l) = CHR ''%'' # r \<and> take 5 r = ''newid'' \<and>
               dropWhile c_isspace (drop 5 r) = CHR ''%'' # NL # t"
proof -
  obtain c r where d: "dropWhile c_isspace (drop n l) = c # r"
    using assms by (cases "dropWhile c_isspace (drop n l)") (simp_all add: newid_line_def)
  have c: "c = CHR ''%''" and t5: "take 5 r = ''newid''"
    and d2: "take 2 (dropWhile c_isspace (drop 5 r)) = [CHR ''%'', NL]"
    using assms d by (simp_all add: newid_line_def split: if_split_asm)
  obtain t where "dropWhile c_isspace (drop 5 r) = CHR ''%'' # NL # t"
    using d2 by (cases "dropWhile c_isspace (drop 5 r)" rule: list.exhaust;
                 cases "tl (dropWhile c_isspace (drop 5 r))") auto
  with d c t5 show ?thesis by blast
qed

lemma newid_line_chars:
  assumes nl: "NL \<notin> set rest" and hd: "rest = [] \<or> \<not> c_isdigit (hd rest)"
    and m: "newid_line (show_int i @ rest @ [NL]) = Some v"
  shows "\<forall>c\<in>set rest. c_isspace c \<or> c \<in> set ''%newid''"
proof -
  let ?X = "rest @ [NL]"
  have "?X = [] \<or> \<not> c_isdigit (hd ?X)" using hd by (cases rest) (auto simp: c_isdigit_def)
  then obtain v' where sc: "scan_d (show_int i @ ?X) = Some (v', length (show_int i))"
    using scan_d_show_int_len by blast
  obtain r t where d1: "dropWhile c_isspace ?X = CHR ''%'' # r" and t5: "take 5 r = ''newid''"
    and d2: "dropWhile c_isspace (drop 5 r) = CHR ''%'' # NL # t"
    using newid_line_Some [OF m sc] by auto
  have x1: "?X = takeWhile c_isspace ?X @ CHR ''%'' # r"
    using takeWhile_dropWhile_id [of c_isspace ?X] d1 by simp
  have r1: "r = take 5 r @ takeWhile c_isspace (drop 5 r) @ CHR ''%'' # NL # t"
    using append_take_drop_id [of 5 r] takeWhile_dropWhile_id [of c_isspace "drop 5 r"] d2 by simp
  have "?X = (takeWhile c_isspace ?X @ CHR ''%'' # take 5 r @ takeWhile c_isspace (drop 5 r) @ [CHR ''%'']) @ NL # t"
    using x1 r1 by (metis append.assoc append_Cons append_Nil)
  then have "t = []" using nl last_NL_unique by blast
  show ?thesis
  proof
    fix c assume c: "c \<in> set rest"
    then have cx: "c \<in> set ?X" by simp
    have "c \<noteq> NL" using c nl by blast
    from set_dropWhile_cover [OF cx, of c_isspace] d1
    have "c_isspace c \<or> c = CHR ''%'' \<or> c \<in> set r" by auto
    moreover have "c \<in> set r \<Longrightarrow> c \<in> set ''newid'' \<or> c \<in> set (drop 5 r)"
      using set_take_drop_cover [of c r 5] t5 by auto
    moreover have "c \<in> set (drop 5 r) \<Longrightarrow> c_isspace c \<or> c = CHR ''%'' \<or> c = NL"
      using set_dropWhile_cover [of c "drop 5 r" c_isspace] d2 \<open>t = []\<close> by auto
    ultimately show "c_isspace c \<or> c \<in> set ''%newid''" using \<open>c \<noteq> NL\<close> by auto
  qed
qed

lemma newid_line_account:
  assumes "account_wf a"
  shows "newid_line (mmo_auth_tostr a @ [NL]) = None"
proof (rule ccontr)
  assume "newid_line (mmo_auth_tostr a @ [NL]) \<noteq> None"
  then obtain v where m: "newid_line (mmo_auth_tostr a @ [NL]) = Some v" by blast
  obtain p q where sh: "mmo_auth_tostr a = show_int (account_id a) @ TAB # p @ show_u32 (level a) @ q"
    using mmo_auth_tostr_shape by blast
  let ?rest = "TAB # p @ show_u32 (level a) @ q"
  have nl: "NL \<notin> set ?rest" using mmo_auth_tostr_no_NL [OF assms] sh by simp
  have hd: "?rest = [] \<or> \<not> c_isdigit (hd ?rest)" by (simp add: c_isdigit_def)
  have all: "\<forall>c\<in>set ?rest. c_isspace c \<or> c \<in> set ''%newid''"
    using newid_line_chars [OF nl hd] m sh by simp
  obtain c cs where "show_nat (unat (level a)) = c # cs" "c_isdigit c" using show_nat_hd by blast
  then have "c \<in> set ?rest" "\<not> c_isspace c" "c \<notin> set ''%newid''"
    by (auto simp: show_u32_def digit_not_space c_isdigit_def)
  with all show False by blast
qed


lemma init_line_account:
  assumes wf: "account_wf a" and free: "idb_get (accounts d) (account_id a) = None"
  shows "init_line (20080409, d) (mmo_auth_tostr a @ [NL]) =
           (20080409, d\<lparr>accounts := accounts d @ [(account_id a, canon_account a)],
                        next_account_id := (if next_account_id d < account_id a then int32 (account_id a + 1)
                                            else next_account_id d)\<rparr>)"
proof -
  obtain p q where sh: "mmo_auth_tostr a = show_int (account_id a) @ TAB # p @ show_u32 (level a) @ q"
    using mmo_auth_tostr_shape by blast
  have nc: "\<not> is_comment_line (mmo_auth_tostr a @ [NL])" using sh show_int_not_comment by simp
  have nv: "version_line (mmo_auth_tostr a @ [NL]) = None" using sh version_line_account by simp
  have ld: "load_account_line 20080409 d (mmo_auth_tostr a @ [NL]) =
           d\<lparr>accounts := accounts d @ [(account_id a, canon_account a)],
             next_account_id := (if next_account_id d < account_id a then int32 (account_id a + 1)
                                 else next_account_id d)\<rparr>"
    using free by (simp add: load_account_line_def mmo_auth_fromstr_tostr [OF wf] canon_account_def
        idb_put_def idb_get_def)
  show ?thesis
    using nc nv newid_line_account [OF wf] ld by (simp add: init_line_def)
qed

lemma foldl_init_accounts:
  assumes "\<forall>(k, a)\<in>set kvs. account_id a = k \<and> account_wf a" and "distinct (map fst kvs)"
    and "\<forall>k\<in>fst ` set kvs. idb_get (accounts d) k = None"
  shows "foldl init_line (20080409, d) (map (\<lambda>a. mmo_auth_tostr a @ [NL]) (map snd kvs)) =
           (20080409, d\<lparr>accounts := accounts d @ map (\<lambda>(k, a). (k, canon_account a)) kvs,
                        next_account_id := foldl (\<lambda>n k. if n < k then int32 (k + 1) else n) (next_account_id d) (map fst kvs)\<rparr>)"
  using assms
proof (induction kvs arbitrary: d)
  case Nil
  then show ?case by simp
next
  case (Cons kv kvs)
  obtain k a where kv: "kv = (k, a)" by (cases kv)
  with Cons.prems have ka: "account_id a = k" "account_wf a" "idb_get (accounts d) k = None" by auto
  let ?d1 = "d\<lparr>accounts := accounts d @ [(k, canon_account a)],
                next_account_id := (if next_account_id d < k then int32 (k + 1) else next_account_id d)\<rparr>"
  have step: "init_line (20080409, d) (mmo_auth_tostr a @ [NL]) = (20080409, ?d1)"
    using init_line_account [of a d] ka by simp
  have "\<forall>k'\<in>fst ` set kvs. idb_get (accounts ?d1) k' = None"
    using Cons.prems kv by (fastforce simp: idb_get_def image_iff)
  then have "foldl init_line (20080409, ?d1) (map (\<lambda>a. mmo_auth_tostr a @ [NL]) (map snd kvs)) =
           (20080409, ?d1\<lparr>accounts := accounts ?d1 @ map (\<lambda>(k, a). (k, canon_account a)) kvs,
              next_account_id := foldl (\<lambda>n k. if n < k then int32 (k + 1) else n) (next_account_id ?d1) (map fst kvs)\<rparr>)"
    using Cons.IH [of ?d1] Cons.prems by auto
  then show ?case using step kv by simp
qed

lemma foldl_bump_bounds:
  "n0 \<le> N \<Longrightarrow> \<forall>k\<in>set ks. k < N \<Longrightarrow> N \<le> INT_MAX \<Longrightarrow> INT_MIN \<le> n0 \<Longrightarrow>
   n0 \<le> foldl (\<lambda>n k. if n < k then int32 (k + 1) else n) n0 ks \<and> foldl (\<lambda>n k. if n < k then int32 (k + 1) else n) n0 ks \<le> (N :: int)"
proof (induction ks arbitrary: n0)
  case Nil
  then show ?case by simp
next
  case (Cons k ks)
  let ?n = "if n0 < k then int32 (k + 1) else n0"
  have "n0 < k \<Longrightarrow> c_int (k + 1)" using Cons.prems by (simp add: c_int_def)
  then have n: "?n = (if n0 < k then k + 1 else n0)" by simp
  have "?n \<le> N" "INT_MIN \<le> ?n" using Cons.prems unfolding n by auto
  then have "?n \<le> foldl (\<lambda>n k. if n < k then int32 (k + 1) else n) ?n ks \<and>
             foldl (\<lambda>n k. if n < k then int32 (k + 1) else n) ?n ks \<le> N"
    using Cons.IH Cons.prems by simp
  moreover have "n0 \<le> ?n" unfolding n by simp
  ultimately show ?case by (simp del: int32_id)
qed

lemma foldl_init_comments:
  "\<forall>l\<in>set ls. is_comment_line l \<Longrightarrow> foldl init_line st ls = st"
proof (induction ls arbitrary: st)
  case Nil
  then show ?case by simp
next
  case (Cons l ls)
  then show ?case by (cases st) (simp add: init_line_def)
qed

lemma auth_file_comments_lines:
  "\<forall>l\<in>set auth_file_comments. is_comment_line (l @ [NL]) \<and> NL \<notin> set l \<and> length l < LINE_BUF - 1"
  by (simp add: auth_file_comments_def is_comment_line_def LINE_BUF_def)


lemma newid_line_marker:
  "c_int n \<Longrightarrow> newid_line (show_int n @ TAB # newid_marker @ [NL]) = Some n"
  using scan_d_show_int [of "TAB # newid_marker @ [NL]" n]
  by (simp add: newid_line_def newid_marker_def c_isdigit_def c_isspace_def)

lemma fromstr_marker: "mmo_auth_fromstr (show_int n @ TAB # newid_marker @ [NL]) v = None"
proof -
  have "takeWhile (\<lambda>c. c \<noteq> NUL) (show_int n @ TAB # newid_marker @ [NL]) = show_int n @ TAB # newid_marker @ [NL]"
    using show_int_clean [of n] by (intro takeWhile_all_eq) (auto simp: newid_marker_def)
  moreover have "split_tab (show_int n @ TAB # newid_marker @ [NL]) = [show_int n, newid_marker @ [NL]]"
    using show_int_clean [of n] by (simp add: split_tab_append_tab split_tab_no_tab newid_marker_def)
  ultimately show ?thesis by (simp add: mmo_auth_fromstr_def auth_layout_def)
qed

lemma init_line_marker:
  assumes "next_account_id d \<le> n" and "c_int n"
  shows "init_line (v, d) (show_int n @ TAB # newid_marker @ [NL]) = (v, d\<lparr>next_account_id := n\<rparr>)"
proof -
  have nc: "\<not> is_comment_line (show_int n @ TAB # newid_marker @ [NL])" by (rule show_int_not_comment)
  have nv: "version_line (show_int n @ TAB # newid_marker @ [NL]) = None" by (rule version_line_account)
  show ?thesis
  proof (cases "next_account_id d < n")
    case True
    then show ?thesis using nc nv newid_line_marker [OF assms(2)] by (simp add: init_line_def)
  next
    case False
    with assms have "next_account_id d = n" by simp
    then show ?thesis using nc nv newid_line_marker [OF assms(2)]
      by (simp add: init_line_def load_account_line_def fromstr_marker)
  qed
qed

lemma mmo_auth_dump_lines:
  "mmo_auth_dump d = concat (map (\<lambda>l. l @ [NL])
      (show_int ACCOUNT_FILE_VERSION # auth_file_comments
       @ map (\<lambda>a. takeWhile (\<lambda>c. c \<noteq> NUL) (mmo_auth_tostr a)) (db_values (accounts d))
       @ [show_int (next_account_id d) @ TAB # newid_marker]))"
  by (simp add: mmo_auth_dump_def comp_def)

lemma storable_accounts:
  assumes "txt_storable d"
  shows "\<forall>(k, a)\<in>set (accounts d). account_id a = k \<and> account_wf a" "distinct (map fst (accounts d))"
    "\<forall>(k, a)\<in>set (accounts d). k < next_account_id d"
    "\<forall>a\<in>set (db_values (accounts d)). NL \<notin> set (mmo_auth_tostr a) \<and> length (mmo_auth_tostr a) < LINE_BUF - 1"
proof -
  have d: "distinct (map fst (accounts d))" using assms by (simp add: txt_storable_def db_inv_def)
  then have get: "(k, a) \<in> set (accounts d) \<Longrightarrow> idb_get (accounts d) k = Some a" for k a
    by (simp add: idb_get_def)
  have vals: "a \<in> set (db_values (accounts d)) \<Longrightarrow> account_wf a \<and> length (mmo_auth_tostr a) < LINE_BUF - 1" for a
    using assms by (simp add: txt_storable_def)
  show "distinct (map fst (accounts d))" by (rule d)
  show "\<forall>(k, a)\<in>set (accounts d). account_id a = k \<and> account_wf a"
    using assms get vals by (fastforce simp: txt_storable_def keys_match_def db_values_def)
  show "\<forall>(k, a)\<in>set (accounts d). k < next_account_id d"
    using assms get by (fastforce simp: txt_storable_def keys_fresh_def)
  show "\<forall>a\<in>set (db_values (accounts d)). NL \<notin> set (mmo_auth_tostr a) \<and> length (mmo_auth_tostr a) < LINE_BUF - 1"
    using vals mmo_auth_tostr_no_NL by blast
qed


lemma fgets_dump:
  assumes sd: "txt_storable d"
  shows "fgets_lines (mmo_auth_dump d) =
      (show_int ACCOUNT_FILE_VERSION @ [NL]) # map (\<lambda>l. l @ [NL]) auth_file_comments
      @ map (\<lambda>a. mmo_auth_tostr a @ [NL]) (map snd (accounts d))
      @ [show_int (next_account_id d) @ TAB # newid_marker @ [NL]]"
proof -
  let ?mk = "show_int (next_account_id d) @ TAB # newid_marker"
  have "START_ACCOUNT_NUM \<le> next_account_id d" "next_account_id d < 2 ^ 31"
    using sd by (simp_all add: txt_storable_def)
  then have "\<bar>next_account_id d\<bar> < 2 ^ 31" by (simp add: START_ACCOUNT_NUM_def)
  then have mk_len: "length ?mk < LINE_BUF - 1"
    using length_show_int_32 [of "next_account_id d"] by (simp add: newid_marker_def LINE_BUF_def)
  have v_len: "length (show_int ACCOUNT_FILE_VERSION) < LINE_BUF - 1"
    using length_show_int_32 [of ACCOUNT_FILE_VERSION] by (simp add: ACCOUNT_FILE_VERSION_def LINE_BUF_def)
  have "\<forall>a\<in>set (db_values (accounts d)). NUL \<notin> set (mmo_auth_tostr a)"
    using sd mmo_auth_tostr_no_NUL by (auto simp: txt_storable_def)
  then have tw: "map (\<lambda>a. takeWhile (\<lambda>c. c \<noteq> NUL) (mmo_auth_tostr a)) (db_values (accounts d)) =
                 map mmo_auth_tostr (db_values (accounts d))"
    by (intro map_cong refl) (auto simp: takeWhile_eq_all_conv)
  have lines_ok: "\<forall>l\<in>set (show_int ACCOUNT_FILE_VERSION # auth_file_comments
                    @ map mmo_auth_tostr (db_values (accounts d)) @ [?mk]). NL \<notin> set l \<and> length l < LINE_BUF - 1"
    using auth_file_comments_lines storable_accounts(4) [OF sd] mk_len v_len show_int_clean
    by (auto simp: newid_marker_def)
  show ?thesis
    unfolding mmo_auth_dump_lines tw fgets_lines_lines [OF lines_ok] by (simp add: db_values_def)
qed

lemma init_header:
  "foldl init_line (0, txt_db_alloc) (map (\<lambda>l. l @ [NL]) (show_int ACCOUNT_FILE_VERSION # auth_file_comments)) =
     (20080409, txt_db_alloc)"
proof -
  have s1: "init_line (0, txt_db_alloc) (show_int ACCOUNT_FILE_VERSION @ [NL]) = (20080409, txt_db_alloc)"
    using show_int_not_comment version_line_show_int [of _ "[]"]
    by (simp add: init_line_def ACCOUNT_FILE_VERSION_def c_int_def INT_MIN_def INT_MAX_def)
  have s2: "foldl init_line (20080409, txt_db_alloc) (map (\<lambda>l. l @ [NL]) auth_file_comments) = (20080409, txt_db_alloc)"
    using auth_file_comments_lines by (intro foldl_init_comments) simp
  show ?thesis using s1 s2 by simp
qed

lemma init_dump_prefix:
  assumes sd: "txt_storable d"
  shows "foldl init_line (0, txt_db_alloc)
      ((show_int ACCOUNT_FILE_VERSION @ [NL]) # map (\<lambda>l. l @ [NL]) auth_file_comments
       @ map (\<lambda>a. mmo_auth_tostr a @ [NL]) (map snd (accounts d))) =
    (20080409, txt_db_alloc\<lparr>accounts := map (\<lambda>(k, a). (k, canon_account a)) (accounts d),
       next_account_id := foldl (\<lambda>n k. if n < k then int32 (k + 1) else n) START_ACCOUNT_NUM (map fst (accounts d))\<rparr>)"
proof -
  note st = storable_accounts [OF sd]
  have "\<forall>k\<in>fst ` set (accounts d). idb_get (accounts txt_db_alloc) k = None"
    by (simp add: txt_db_alloc_def)
  from foldl_init_accounts [OF st(1) st(2) this] have s3:
    "foldl init_line (20080409, txt_db_alloc) (map (\<lambda>a. mmo_auth_tostr a @ [NL]) (map snd (accounts d))) =
     (20080409, txt_db_alloc\<lparr>accounts := map (\<lambda>(k, a). (k, canon_account a)) (accounts d),
       next_account_id := foldl (\<lambda>n k. if n < k then int32 (k + 1) else n) START_ACCOUNT_NUM (map fst (accounts d))\<rparr>)"
    by (simp add: txt_db_alloc_def idb_alloc_def)
  show ?thesis using init_header s3 by simp
qed

lemma dump_reload:
  assumes sd: "txt_storable d"
  shows "account_db_txt_init (Some (mmo_auth_dump d)) =
           (True, \<lparr>accounts = map (\<lambda>(k, a). (k, canon_account a)) (accounts d),
                   next_account_id = next_account_id d, auths_before_save = AUTHS_BEFORE_SAVE,
                   save_timer = True\<rparr>)"
proof -
  let ?n = "foldl (\<lambda>n k. if n < k then int32 (k + 1) else n) START_ACCOUNT_NUM (map fst (accounts d))"
  let ?d = "txt_db_alloc\<lparr>accounts := map (\<lambda>(k, a). (k, canon_account a)) (accounts d), next_account_id := ?n\<rparr>"
  have "\<forall>k\<in>set (map fst (accounts d)). k < next_account_id d" using storable_accounts(3) [OF sd] by auto
  moreover have "START_ACCOUNT_NUM \<le> next_account_id d" "next_account_id d < 2 ^ 31"
    using sd by (simp_all add: txt_storable_def)
  moreover have "INT_MIN \<le> START_ACCOUNT_NUM" by (simp add: INT_MIN_def START_ACCOUNT_NUM_def)
  ultimately have "?n \<le> next_account_id d" and ci: "c_int (next_account_id d)"
    using foldl_bump_bounds [of START_ACCOUNT_NUM "next_account_id d" "map fst (accounts d)"]
    by (auto simp: c_int_def INT_MAX_def INT_MIN_def START_ACCOUNT_NUM_def)
  then have mk: "init_line (20080409, ?d) (show_int (next_account_id d) @ TAB # newid_marker @ [NL]) =
      (20080409, ?d\<lparr>next_account_id := next_account_id d\<rparr>)"
    using init_line_marker ci by simp
  show ?thesis
    unfolding account_db_txt_init_def option.case fgets_dump [OF sd] append_assoc [symmetric]
      foldl_append Cons_eq_appendI foldl_Cons
    using init_dump_prefix [OF sd] mk by (simp add: txt_db_alloc_def)
qed

text \<open>
  C22: durability of a flush. For every state the file can hold, \<open>init\<close> on the dump
  that \<open>mmo_auth_sync\<close> writes rebuilds the same map, in the same order, with each account
  as the codec returns it (registry entries without a key dropped), and the same counter;
  the dirty counter starts clean and the timer is registered.
\<close>

theorem txt_dump_reload:
  assumes "txt_storable d"
  shows "account_db_txt_init (Some (mmo_auth_dump d)) =
           (True, \<lparr>accounts = map (\<lambda>(k, a). (k, canon_account a)) (accounts d),
                   next_account_id = next_account_id d, auths_before_save = AUTHS_BEFORE_SAVE,
                   save_timer = True\<rparr>)"
  using dump_reload [OF assms] .

theorem txt_dump_reload_witness:
  "account_db_txt_init (Some (mmo_auth_dump
      \<lparr>accounts = [(2000000, zero_account\<lparr>account_id := 2000000, userid := ''u1'', sex := CHR ''M'',
          account_reg2 := [\<lparr>str = ''kk'', reg_value = ''vv''\<rparr>, \<lparr>str = [], reg_value = ''x''\<rparr>]\<rparr>)],
       next_account_id = 2000001, auths_before_save = 3, save_timer = True\<rparr>)) =
   (True, \<lparr>accounts = [(2000000, zero_account\<lparr>account_id := 2000000, userid := ''u1'', sex := CHR ''M'',
          account_reg2 := [\<lparr>str = ''kk'', reg_value = ''vv''\<rparr>]\<rparr>)],
       next_account_id = 2000001, auths_before_save = AUTHS_BEFORE_SAVE, save_timer = True\<rparr>)"
proof -
  let ?a = "zero_account\<lparr>account_id := 2000000, userid := ''u1'', sex := CHR ''M'',
          account_reg2 := [\<lparr>str = ''kk'', reg_value = ''vv''\<rparr>, \<lparr>str = [], reg_value = ''x''\<rparr>]\<rparr>"
  have wf: "account_wf ?a"
    by (simp add: account_wf_def field_ok_def reg_ok_def codec_simps cstr_simps c_int_def c_long_def INT_MIN_def INT_MAX_def)
  have "length (show_int 2000000) \<le> 11" by (rule length_show_int_32) simp
  then have len: "length (mmo_auth_tostr ?a) < LINE_BUF - 1"
    by (simp add: mmo_auth_tostr_def tab_fields_def reg_tostr_def zero_account_def show_u32_def LINE_BUF_def show_int_def)
  have "txt_storable \<lparr>accounts = [(2000000, ?a)], next_account_id = 2000001, auths_before_save = 3, save_timer = True\<rparr>"
    using wf len by (simp add: txt_storable_def db_inv_def keys_match_def keys_fresh_def idb_get_def db_values_def
        START_ACCOUNT_NUM_def)
  from txt_dump_reload [OF this] show ?thesis by (simp add: canon_account_def)
qed

text \<open>
  C38: \<open>free\<close> (the interface's destroy) flushes the whole map, and when that flush
  succeeds, \<open>init\<close> on the file it leaves restores the same accounts and counter: no
  change is lost across a shutdown and restart.
\<close>

theorem txt_free_then_init:
  assumes "txt_storable (db w)"
  shows "account_db_txt_free True w = (True, Some (mmo_auth_dump (db w))) \<and>
         account_db_txt_init (snd (account_db_txt_free True w)) =
           (True, \<lparr>accounts = map (\<lambda>(k, a). (k, canon_account a)) (accounts (db w)),
                   next_account_id = next_account_id (db w), auths_before_save = AUTHS_BEFORE_SAVE,
                   save_timer = True\<rparr>)"
proof -
  have "account_db_txt_free True w = (True, Some (mmo_auth_dump (db w)))"
    by (simp add: account_db_txt_free_def sync_simps)
  with dump_reload [OF assms] show ?thesis by simp
qed

theorem txt_free_then_init_witness:
  "account_db_txt_init (snd (account_db_txt_free True txt_fresh_world)) =
     (True, \<lparr>accounts = [], next_account_id = START_ACCOUNT_NUM, auths_before_save = AUTHS_BEFORE_SAVE,
             save_timer = True\<rparr>)"
proof -
  have "txt_storable (db txt_fresh_world)"
    by (simp add: txt_storable_def txt_db_alloc_def db_inv_def keys_match_def keys_fresh_def idb_get_def
        idb_alloc_def db_values_def START_ACCOUNT_NUM_def)
  note r = conjunct2 [OF txt_free_then_init [OF this]]
  have e: "map (\<lambda>(k, a). (k, canon_account a)) (accounts (db txt_fresh_world)) = []"
    and n: "next_account_id (db txt_fresh_world) = START_ACCOUNT_NUM"
    by (simp_all add: txt_db_alloc_def idb_alloc_def)
  from r show ?thesis unfolding e n .
qed

subsection \<open>Integer overflow of the counter, and accounts the dump loses\<close>




lemma newid_line_last:
  assumes m: "newid_line (l @ [NL]) = Some v" and nl: "NL \<notin> set l"
  shows "l \<noteq> [] \<and> last l = CHR ''%''"
proof -
  obtain v' n where sc: "scan_d (l @ [NL]) = Some (v', n)"
    using m by (cases "scan_d (l @ [NL])") (auto simp: newid_line_def)
  let ?X = "drop n (l @ [NL])"
  obtain r t where d1: "dropWhile c_isspace ?X = CHR ''%'' # r" and t5: "take 5 r = ''newid''"
    and d2: "dropWhile c_isspace (drop 5 r) = CHR ''%'' # NL # t"
    using newid_line_Some [OF m sc] by auto
  have x1: "?X = takeWhile c_isspace ?X @ CHR ''%'' # r"
    using d1 by (metis takeWhile_dropWhile_id)
  have r1: "r = take 5 r @ takeWhile c_isspace (drop 5 r) @ CHR ''%'' # NL # t"
    using append_take_drop_id [of 5 r] takeWhile_dropWhile_id [of c_isspace "drop 5 r"] d2 by simp
  let ?P = "take n (l @ [NL]) @ takeWhile c_isspace ?X @ CHR ''%'' # take 5 r @ takeWhile c_isspace (drop 5 r)"
  have "l @ [NL] = (?P @ [CHR ''%'']) @ NL # t"
    using append_take_drop_id [of n "l @ [NL]"] x1 r1 by (metis append.assoc append_Cons append_Nil)
  moreover from this have "t = []" using nl last_NL_unique by blast
  ultimately have "l = ?P @ [CHR ''%'']" by simp
  then show ?thesis by (metis last_snoc snoc_eq_iff_butlast)
qed

lemma init_line_nul_sex:
  assumes "sex a = NUL" "field_ok NAME_LENGTH (userid a)" "field_ok PASS_SIZE (pass a)"
  shows "init_line (v, d) (takeWhile (\<lambda>c. c \<noteq> NUL) (mmo_auth_tostr a) @ [NL]) = (v, d)"
proof -
  let ?L = "show_int (account_id a) @ TAB # userid a @ TAB # pass a @ [TAB]"
  have u: "NUL \<notin> set (userid a)" "TAB \<notin> set (userid a)" "NL \<notin> set (userid a)"
    and p: "NUL \<notin> set (pass a)" "TAB \<notin> set (pass a)" "NL \<notin> set (pass a)"
    using assms(2,3) by (simp_all add: field_ok_def)
  have tw: "takeWhile (\<lambda>c. c \<noteq> NUL) (mmo_auth_tostr a) = ?L"
    using mmo_auth_tostr_nul_sex [OF assms(1) u(1) p(1)] .
  have nc: "\<not> is_comment_line (?L @ [NL])" using show_int_not_comment by simp
  have nv: "version_line (?L @ [NL]) = None" using version_line_account by simp
  have "NL \<notin> set ?L" using u p show_int_clean by simp
  then have nn: "newid_line (?L @ [NL]) = None"
    using newid_line_last [of ?L] by (cases "newid_line (?L @ [NL])") auto
  have nf: "mmo_auth_fromstr (?L @ [NL]) v = None"
    using mmo_auth_fromstr_four_fields [OF u(2) p(2) u(1) p(1)] by simp
  show ?thesis
    unfolding tw using nc nv nn nf by (simp add: init_line_def load_account_line_def)
qed

text \<open>
  C16: an account whose sex is NUL (as in a zero-filled buffer) does not survive a
  flush and a restart: \<open>%c\<close> writes a NUL byte into \<open>buf\<close> (line 423), \<open>fprintf("%s\n")\<close>
  (line 469) writes only the id, name and password, and \<open>init\<close> skips that line as an
  unmatched row. The dump of a map holding only such an account loads back empty.
\<close>

theorem txt_dump_drops_nul_sex:
  assumes "sex a = NUL" and "field_ok NAME_LENGTH (userid a)" and "field_ok PASS_SIZE (pass a)"
    and "c_int (account_id a)" and "START_ACCOUNT_NUM \<le> n" and "n \<le> INT_MAX"
  shows "account_db_txt_init (Some (mmo_auth_dump
            \<lparr>accounts = [(account_id a, a)], next_account_id = n, auths_before_save = c, save_timer = t\<rparr>)) =
         (True, \<lparr>accounts = [], next_account_id = n, auths_before_save = AUTHS_BEFORE_SAVE, save_timer = True\<rparr>)"
proof -
  let ?d = "\<lparr>accounts = [(account_id a, a)], next_account_id = n, auths_before_save = c, save_timer = t\<rparr>"
  let ?L = "takeWhile (\<lambda>c. c \<noteq> NUL) (mmo_auth_tostr a)"
  let ?M = "show_int n @ TAB # newid_marker"
  have u: "NUL \<notin> set (userid a)" "length (userid a) < NAME_LENGTH"
    and p: "NUL \<notin> set (pass a)" "length (pass a) < PASS_SIZE"
    using assms(2,3) by (simp_all add: field_ok_def)
  have ci: "c_int n" using assms(5,6) by (simp add: c_int_def INT_MIN_def START_ACCOUNT_NUM_def)
  have lenL: "length ?L < LINE_BUF - 1" "NL \<notin> set ?L"
    using mmo_auth_tostr_nul_sex [OF assms(1) u(1) p(1)] length_show_int_c_int [OF assms(4)] u p assms(2,3)
      show_int_clean [of "account_id a"]
    by (auto simp: LINE_BUF_def NAME_LENGTH_def PASS_SIZE_def field_ok_def)
  have lenM: "length ?M < LINE_BUF - 1" "NL \<notin> set ?M"
    using length_show_int_c_int [OF ci] show_int_clean [of n] by (simp_all add: newid_marker_def LINE_BUF_def)
  have v_len: "length (show_int ACCOUNT_FILE_VERSION) < LINE_BUF - 1"
    using length_show_int_32 [of ACCOUNT_FILE_VERSION] by (simp add: ACCOUNT_FILE_VERSION_def LINE_BUF_def)
  have lines_ok: "\<forall>l\<in>set (show_int ACCOUNT_FILE_VERSION # auth_file_comments @ [?L, ?M]). NL \<notin> set l \<and> length l < LINE_BUF - 1"
    using auth_file_comments_lines lenL lenM v_len show_int_clean by auto
  have fg: "fgets_lines (mmo_auth_dump ?d) = map (\<lambda>l. l @ [NL]) (show_int ACCOUNT_FILE_VERSION # auth_file_comments) @ [?L @ [NL], ?M @ [NL]]"
    using fgets_lines_lines [OF lines_ok] by (simp add: mmo_auth_dump_lines db_values_def)
  have sL: "init_line (20080409, txt_db_alloc) (?L @ [NL]) = (20080409, txt_db_alloc)"
    by (rule init_line_nul_sex [OF assms(1-3)])
  have sM: "init_line (20080409, txt_db_alloc) (?M @ [NL]) = (20080409, txt_db_alloc\<lparr>next_account_id := n\<rparr>)"
    using init_line_marker [of txt_db_alloc n, OF _ ci] assms(5) by (simp add: txt_db_alloc_def)
  show ?thesis
    unfolding account_db_txt_init_def option.case fg foldl_append init_header
    using sL sM by (simp add: txt_db_alloc_def idb_alloc_def)
qed

theorem txt_dump_drops_nul_sex_witness:
  "account_db_txt_init (Some (mmo_auth_dump
      \<lparr>accounts = [(2000000, zero_account\<lparr>account_id := 2000000\<rparr>)], next_account_id = 2000001,
       auths_before_save = 10, save_timer = True\<rparr>)) =
   (True, \<lparr>accounts = [], next_account_id = 2000001, auths_before_save = AUTHS_BEFORE_SAVE, save_timer = True\<rparr>)"
proof -
  have "sex (zero_account\<lparr>account_id := 2000000\<rparr>) = NUL" "field_ok NAME_LENGTH (userid (zero_account\<lparr>account_id := 2000000\<rparr>))"
    "field_ok PASS_SIZE (pass (zero_account\<lparr>account_id := 2000000\<rparr>))" "c_int (account_id (zero_account\<lparr>account_id := 2000000\<rparr>))"
    "START_ACCOUNT_NUM \<le> 2000001" "2000001 \<le> INT_MAX"
    by (simp_all add: zero_account_def field_ok_def NAME_LENGTH_def PASS_SIZE_def c_int_def INT_MIN_def INT_MAX_def
        START_ACCOUNT_NUM_def)
  from txt_dump_drops_nul_sex [OF this, of 10 True] show ?thesis by simp
qed
subsection \<open>Keys, names and the write-behind counter across operations\<close>

text \<open>
  C17: \<open>create\<close> copies the caller's record verbatim (line 199) and never writes the
  assigned id into it. On a map keyed by each account's own id, the map stays so exactly
  when the caller's \<open>account_id\<close> already equals the new key; a record created from a
  zero-filled buffer is stored under the new key with \<open>account_id = 0\<close>.
\<close>

theorem txt_create_keys_match:
  assumes "keys_match (db w)" and "account_db_txt_create io acc w = (True, w')"
  shows "keys_match (db w') \<longleftrightarrow> account_id acc = next_account_id (db w)"
proof -
  from create_cases [OF assms(2)] have "accounts (db w') = idb_put (accounts (db w)) (next_account_id (db w)) acc"
    by (simp add: sync_simps)
  with assms(1) show ?thesis by (auto simp: keys_match_def)
qed

theorem txt_create_keys_match_witness:
  "\<not> keys_match (db (snd (account_db_txt_create False zero_account txt_fresh_world)))"
proof -
  have "account_db_txt_create False zero_account txt_fresh_world =
          (True, snd (account_db_txt_create False zero_account txt_fresh_world))"
    by (simp add: txt_eval)
  from txt_create_keys_match [OF _ this] show ?thesis
    by (simp add: keys_match_def txt_db_alloc_def idb_alloc_def idb_get_def zero_account_def START_ACCOUNT_NUM_def)
qed

lemma db_values_put_new: "idb_get m k = None \<Longrightarrow> db_values (idb_put m k v) = db_values m @ [v]"
  by (simp add: idb_put_def idb_get_def db_values_def)

text \<open>
  C21: after a successful \<open>create\<close> of an account whose name no stored account has,
  \<open>load_str\<close> by that name finds it: the new entry comes last in iteration order and
  is the only match.
\<close>

theorem txt_create_then_load_str:
  assumes "account_db_txt_create io acc w = (True, w')"
    and "\<forall>a\<in>set (db_values (accounts (db w))). userid a \<noteq> userid acc"
  shows "account_db_txt_load_str (userid acc) w' = (True, acc)"
proof -
  from create_cases [OF assms(1)] have free: "idb_get (accounts (db w)) (next_account_id (db w)) = None"
    and acc: "accounts (db w') = idb_put (accounts (db w)) (next_account_id (db w)) acc"
    by (simp_all add: sync_simps)
  have "find (\<lambda>a. userid acc = userid a) (db_values (accounts (db w))) = None"
    using assms(2) by (auto simp: find_None_iff)
  then show ?thesis
    by (simp add: account_db_txt_load_str_def acc db_values_put_new [OF free] find_snoc_None)
qed

theorem txt_create_then_load_str_witness:
  "account_db_txt_load_str [] (snd (account_db_txt_create False zero_account txt_fresh_world)) = (True, zero_account)"
proof -
  have "account_db_txt_create False zero_account txt_fresh_world =
          (True, snd (account_db_txt_create False zero_account txt_fresh_world))"
    by (simp add: txt_eval)
  from txt_create_then_load_str [OF this] show ?thesis
    by (simp add: txt_db_alloc_def idb_alloc_def db_values_def zero_account_def)
qed

lemma txt_io_step_counter:
  assumes "0 < auths_before_save (db w)" "auths_before_save (db w) \<le> AUTHS_BEFORE_SAVE"
  shows "0 < auths_before_save (db (snd (account_db_txt True op w))) \<and>
         auths_before_save (db (snd (account_db_txt True op w))) \<le> AUTHS_BEFORE_SAVE"
proof -
  obtain r w' where eq: "account_db_txt True op w = (r, w')" by fastforce
  have "0 < auths_before_save (db w') \<and> auths_before_save (db w') \<le> AUTHS_BEFORE_SAVE"
    using account_db_txt_cases [OF eq]
  proof (elim disjE exE conjE)
    fix acc b assume "account_db_txt_create True acc w = (b, w')"
    from create_cases [OF this] assms show ?thesis by (auto simp: sync_simps AUTHS_BEFORE_SAVE_def)
  next
    fix aid b assume "account_db_txt_remove True aid w = (b, w')"
    from remove_cases [OF this] assms show ?thesis by (auto simp: sync_simps AUTHS_BEFORE_SAVE_def)
  next
    fix acc b assume s: "account_db_txt_save True acc w = (b, w')"
    from save_cases [OF s] assms show ?thesis
    proof (elim disjE conjE)
      assume ok: "account_db_txt_save True acc w = (True, w')"
      from txt_save_counter [OF ok] assms show ?thesis
        by (cases "auths_before_save (db w) = 1") (auto simp: AUTHS_BEFORE_SAVE_def)
    qed auto
  next
    assume "w' = mmo_auth_sync_timer True w"
    with assms show ?thesis by (auto simp: mmo_auth_sync_timer_def sync_simps AUTHS_BEFORE_SAVE_def)
  next
    assume "w' = w"
    with assms show ?thesis by simp
  qed
  with eq show ?thesis by simp
qed

lemma txt_init_clean: "account_db_txt_init (Some f) = (True, d) \<Longrightarrow> auths_before_save d = AUTHS_BEFORE_SAVE"
proof -
  have "auths_before_save (snd (foldl init_line st ls)) = auths_before_save (snd st)" for st ls
  proof (induction ls arbitrary: st)
    case Nil
    then show ?case by simp
  next
    case (Cons l ls)
    then show ?case
      by (cases st) (simp add: init_line_def load_account_line_def split: option.splits if_splits)
  qed
  then show "account_db_txt_init (Some f) = (True, d) \<Longrightarrow> auths_before_save d = AUTHS_BEFORE_SAVE"
    by (auto simp: account_db_txt_init_def txt_db_alloc_def)
qed

text \<open>
  C34: with a working file system, the write-behind counter stays between 1 and
  \<open>AUTHS_BEFORE_SAVE\<close> in every world reachable from \<open>init\<close>: the save that brings it
  to zero flushes and resets it, so at most \<open>AUTHS_BEFORE_SAVE - 1\<close> saves are ever
  pending (compare C19 for a failing file system).
\<close>

theorem txt_io_counter_bounds:
  "txt_reachable_io w \<Longrightarrow> 0 < auths_before_save (db w) \<and> auths_before_save (db w) \<le> AUTHS_BEFORE_SAVE"
proof (induction rule: txt_reachable_io.induct)
  case (init f d)
  then show ?case by (simp add: txt_init_clean AUTHS_BEFORE_SAVE_def)
next
  case (call w op)
  then show ?case using txt_io_step_counter [of w op] by blast
next
  case (timer w)
  then show ?case using txt_io_step_counter [of w OpTimer] by blast
qed

theorem txt_io_counter_bounds_witness:
  "0 < auths_before_save (db (snd (account_db_txt True (OpSave zero_account) txt_fresh_world)))"
proof -
  have "txt_reachable_io txt_fresh_world"
    using txt_reachable_io.init [of "[]" "txt_db_alloc\<lparr>save_timer := True\<rparr>"]
    by (simp add: account_db_txt_init_def)
  then have "txt_reachable_io (snd (account_db_txt True (OpSave zero_account) txt_fresh_world))"
    by (rule txt_reachable_io.call) simp
  then show ?thesis by (rule txt_io_counter_bounds [THEN conjunct1])
qed

lemma init_line_keeps:
  "idb_get (accounts d) k = Some a \<Longrightarrow> idb_get (accounts (snd (init_line (v, d) l))) k = Some a"
  by (auto simp: init_line_def load_account_line_def split: option.splits if_splits)

text \<open>
  C37: while \<open>init\<close> reads the file, an account once loaded is never replaced or
  dropped by a later line: the first record with a given id wins (line 141), and version
  lines, marker lines and malformed lines leave the map alone.
\<close>

theorem txt_init_first_wins:
  "idb_get (accounts (snd (foldl init_line st ls1))) k = Some a \<Longrightarrow>
   idb_get (accounts (snd (foldl init_line st (ls1 @ ls2)))) k = Some a"
proof (induction ls2 arbitrary: ls1)
  case Nil
  then show ?case by simp
next
  case (Cons l ls2)
  obtain v d where st: "foldl init_line st ls1 = (v, d)" by fastforce
  have "idb_get (accounts (snd (foldl init_line st (ls1 @ [l])))) k = Some a"
    using Cons.prems st init_line_keeps [of d k a v l] by simp
  then show ?case using Cons.IH [of "ls1 @ [l]"] by simp
qed

theorem txt_init_first_wins_witness:
  "userid (the (idb_get (accounts (snd (foldl init_line (0, txt_db_alloc)
      (map (\<lambda>l. l @ [NL]) collision_lines @ map (\<lambda>l. l @ [NL]) dup_lines)))) 2000000)) = ''user1''"
proof -
  have h: "idb_get (accounts (snd (foldl init_line (0, txt_db_alloc) (map (\<lambda>l. l @ [NL]) collision_lines)))) 2000000 =
      Some (zero_account\<lparr>account_id := 2000000, userid := ''user1'', pass := ''pass1'', sex := CHR ''M'',
        email := ''a@a.com'', lastlogin := ''0'', last_ip := ''0''\<rparr>)"
    by (simp add: init_eval collision_lines_def)
  from txt_init_first_wins [OF h] show ?thesis by simp
qed

end
