(* ===== verification/SqlStore.thy ===== *)
theory SqlStore
  imports Prelude
begin

text \<open>
  The relational store behind the party backend of src/char/partydb_sql.c: the two tables
  it touches (the party table and the character table's party column), the table's
  \<open>AUTO_INCREMENT\<close> counter, and the transaction state of the connection. The SQL client
  library (\<open>Sql_Query\<close>, \<open>SqlStmt_Execute\<close>, \<open>Sql_NextRow\<close>, \<open>SqlStmt_LastInsertId\<close>) is not
  under src/, so its behaviour is modelled from the specification and from the MySQL
  semantics the code relies on:
  \<^item> every statement sent to the server may fail; the outcomes are an explicit fault
    schedule, one entry per statement, consumed in order (an exhausted schedule means no
    further faults);
  \<^item> \<open>START TRANSACTION\<close> takes a snapshot of the tables; \<open>COMMIT\<close> keeps the changes,
    \<open>ROLLBACK\<close> restores the snapshot; a failed \<open>COMMIT\<close> or \<open>ROLLBACK\<close> leaves the
    transaction rolled back by the server;
  \<^item> the \<open>AUTO_INCREMENT\<close> counter is not part of the snapshot: an id consumed by an insert
    stays consumed after a rollback (InnoDB), and an explicit id at or above it moves it
    past that id;
  \<^item> rows are kept in insertion order, which stands for the server's unspecified result
    order; values are stored unescaped (escaping and unescaping are inverse).
\<close>

record party_row =
  row_party_id :: int
  row_name :: string
  row_exp :: int
  row_item :: int
  row_leader_id :: int
  row_leader_char :: int

record char_row =
  ch_account_id :: int
  ch_char_id :: int
  ch_party_id :: int

record sql_tables =
  party_tab :: "party_row list"
  char_tab :: "char_row list"

record sql_conn =
  tables :: sql_tables
  auto_inc :: int
  snapshot :: "sql_tables option"
  faults :: "bool list"

subsection \<open>Statements\<close>

text \<open>Whether the next statement fails, from the fault schedule.\<close>

definition sql_fault :: "sql_conn \<Rightarrow> bool \<times> sql_conn" where
  "sql_fault c = (case faults c of [] \<Rightarrow> (False, c) | f # fs \<Rightarrow> (f, c\<lparr>faults := fs\<rparr>))"

text \<open>A data-changing statement: it fails on a fault or when the server rejects it (\<open>None\<close>).\<close>

definition sql_exec :: "(sql_tables \<Rightarrow> sql_tables option) \<Rightarrow> sql_conn \<Rightarrow> bool \<times> sql_conn" where
  "sql_exec f c =
     (let (flt, c1) = sql_fault c
      in if flt then (False, c1)
         else (case f (tables c1) of None \<Rightarrow> (False, c1) | Some t \<Rightarrow> (True, c1\<lparr>tables := t\<rparr>)))"

text \<open>A query: its result set, or \<open>None\<close> for \<open>SQL_ERROR\<close>.\<close>

definition sql_select :: "(sql_tables \<Rightarrow> 'a) \<Rightarrow> sql_conn \<Rightarrow> 'a option \<times> sql_conn" where
  "sql_select q c = (let (flt, c1) = sql_fault c in if flt then (None, c1) else (Some (q (tables c1)), c1))"

definition sql_start_transaction :: "sql_conn \<Rightarrow> bool \<times> sql_conn" where
  "sql_start_transaction c =
     (let (flt, c1) = sql_fault c
      in if flt then (False, c1) else (True, c1\<lparr>snapshot := Some (tables c1)\<rparr>))"

text \<open>
  \<open>Sql_QueryStr(sql_handle, result ? "COMMIT" : "ROLLBACK")\<close>, and \<open>result = false\<close> when
  that statement fails.
\<close>

definition sql_finish :: "bool \<Rightarrow> sql_conn \<Rightarrow> bool \<times> sql_conn" where
  "sql_finish ok c =
     (let (flt, c1) = sql_fault c
      in if ok \<and> \<not> flt then (True, c1\<lparr>snapshot := None\<rparr>)
         else (False, c1\<lparr>tables := (case snapshot c1 of None \<Rightarrow> tables c1 | Some t \<Rightarrow> t),
                         snapshot := None\<rparr>))"

text \<open>
  \<open>INSERT\<close> into the party table: an explicit id (\<open>Some\<close>) or \<open>NULL\<close> (\<open>None\<close>, the
  counter's value). A duplicate primary key is rejected. The result is the insert id.
\<close>

definition sql_insert_party :: "int option \<Rightarrow> party_row \<Rightarrow> sql_conn \<Rightarrow> int option \<times> sql_conn" where
  "sql_insert_party pid r c =
     (let (flt, c1) = sql_fault c;
          i = (case pid of None \<Rightarrow> auto_inc c1 | Some j \<Rightarrow> j)
      in if flt \<or> i \<in> set (map row_party_id (party_tab (tables c1))) then (None, c1)
         else (Some i, c1\<lparr>tables := (tables c1)\<lparr>party_tab := party_tab (tables c1) @ [r\<lparr>row_party_id := i\<rparr>]\<rparr>,
                          auto_inc := max (auto_inc c1) (i + 1)\<rparr>))"

text \<open>
  The well-formed store: party ids are a primary key below the counter, which is
  positive; no transaction is open between calls.
\<close>

definition sql_wf :: "sql_conn \<Rightarrow> bool" where
  "sql_wf c \<longleftrightarrow>
     distinct (map row_party_id (party_tab (tables c))) \<and> 0 < auto_inc c \<and>
     (\<forall>r\<in>set (party_tab (tables c)). row_party_id r < auto_inc c) \<and> snapshot c = None"

subsection \<open>What each statement changes\<close>

lemma sql_fault_eq: "sql_fault c = (flt, c1) \<Longrightarrow> c1 = c\<lparr>faults := drop 1 (faults c)\<rparr> \<and> flt = (faults c \<noteq> [] \<and> hd (faults c))"
  by (cases "faults c") (auto simp: sql_fault_def)

lemma sql_fault_keeps [simp]:
  "tables (snd (sql_fault c)) = tables c" "auto_inc (snd (sql_fault c)) = auto_inc c"
  "snapshot (snd (sql_fault c)) = snapshot c"
  by (cases "faults c"; simp add: sql_fault_def)+

lemma sql_fault_none [simp]: "faults c = [] \<Longrightarrow> sql_fault c = (False, c)"
  by (simp add: sql_fault_def)

lemma sql_exec_cases:
  assumes "sql_exec f c = (ok, c')"
  shows "snapshot c' = snapshot c \<and> auto_inc c' = auto_inc c \<and> length (faults c') \<le> length (faults c) \<and>
         (ok \<longrightarrow> f (tables c) = Some (tables c')) \<and> (\<not> ok \<longrightarrow> tables c' = tables c)"
proof -
  obtain flt c1 where f: "sql_fault c = (flt, c1)" by (cases "sql_fault c")
  from sql_fault_eq [OF f] have c1: "c1 = c\<lparr>faults := drop 1 (faults c)\<rparr>" by blast
  show ?thesis
    using assms f c1 by (auto simp: sql_exec_def split: if_splits option.splits)
qed

lemma sql_exec_no_fault: "faults c = [] \<Longrightarrow> f (tables c) = Some t \<Longrightarrow> sql_exec f c = (True, c\<lparr>tables := t\<rparr>)"
  by (simp add: sql_exec_def)

lemma sql_select_cases:
  assumes "sql_select q c = (r, c')"
  shows "tables c' = tables c \<and> auto_inc c' = auto_inc c \<and> snapshot c' = snapshot c
     \<and> (\<forall>v. r = Some v \<longrightarrow> v = q (tables c))"
proof -
  obtain flt c1 where f: "sql_fault c = (flt, c1)" by (cases "sql_fault c")
  from sql_fault_eq [OF f] have c1: "c1 = c\<lparr>faults := drop 1 (faults c)\<rparr>" by blast
  show ?thesis
    using assms f c1 by (auto simp: sql_select_def split: if_splits)
qed

lemma sql_select_no_fault: "faults c = [] \<Longrightarrow> sql_select q c = (Some (q (tables c)), c)"
  by (simp add: sql_select_def)

lemma sql_start_cases:
  assumes "sql_start_transaction c = (s, c')"
  shows "tables c' = tables c \<and> auto_inc c' = auto_inc c
     \<and> (s \<longrightarrow> snapshot c' = Some (tables c)) \<and> (\<not> s \<longrightarrow> snapshot c' = snapshot c)"
proof -
  obtain flt c1 where f: "sql_fault c = (flt, c1)" by (cases "sql_fault c")
  from sql_fault_eq [OF f] have c1: "c1 = c\<lparr>faults := drop 1 (faults c)\<rparr>" by blast
  show ?thesis
    using assms f c1 by (auto simp: sql_start_transaction_def split: if_splits)
qed

lemma sql_finish_cases:
  assumes "sql_finish ok c = (r, c')"
  shows "snapshot c' = None \<and> auto_inc c' = auto_inc c
     \<and> (r \<longrightarrow> ok \<and> tables c' = tables c)
     \<and> (\<not> r \<longrightarrow> tables c' = (case snapshot c of None \<Rightarrow> tables c | Some t \<Rightarrow> t))"
proof -
  obtain flt c1 where f: "sql_fault c = (flt, c1)" by (cases "sql_fault c")
  from sql_fault_eq [OF f] have c1: "c1 = c\<lparr>faults := drop 1 (faults c)\<rparr>" by blast
  show ?thesis
    using assms f c1 by (auto simp: sql_finish_def split: if_splits option.splits)
qed

lemma sql_finish_no_fault: "faults c = [] \<Longrightarrow> sql_finish True c = (True, c\<lparr>snapshot := None\<rparr>)"
  by (simp add: sql_finish_def)

lemma sql_insert_cases:
  assumes "sql_insert_party pid r c = (iid, c')"
  shows "snapshot c' = snapshot c \<and> auto_inc c \<le> auto_inc c' \<and>
         (iid = None \<longrightarrow> tables c' = tables c \<and> auto_inc c' = auto_inc c) \<and>
         (\<forall>i. iid = Some i \<longrightarrow> i = (case pid of None \<Rightarrow> auto_inc c | Some j \<Rightarrow> j) \<and>
              i \<notin> set (map row_party_id (party_tab (tables c))) \<and>
              tables c' = (tables c)\<lparr>party_tab := party_tab (tables c) @ [r\<lparr>row_party_id := i\<rparr>]\<rparr> \<and>
              auto_inc c' = max (auto_inc c) (i + 1))"
proof -
  obtain flt c1 where f: "sql_fault c = (flt, c1)" by (cases "sql_fault c")
  from sql_fault_eq [OF f] have c1: "c1 = c\<lparr>faults := drop 1 (faults c)\<rparr>" by blast
  show ?thesis
    using assms f c1 by (auto simp: sql_insert_party_def Let_def split: if_splits option.splits)
qed

end
