(* ===== verification/PartySql.thy ===== *)
theory PartySql
  imports SqlStore CLib
begin

text \<open>
  The relational party backend of src/char/partydb_sql.c. A party (\<open>struct party\<close> of
  common/mmo.h, not under src/) keeps its id, its name (a 24-byte buffer), the two option
  bit-fields \<open>exp : 1\<close> and \<open>item : 2\<close> as words of those widths, and its \<open>MAX_PARTY\<close>
  member slots; of a member the backend stores only the account id and the character id,
  and derives the leader flag. Every operation is a function on the connection
  (\<open>sql_conn\<close>), returning the C result and, where the C function writes through its
  pointer argument, the new content of the caller's structure.
\<close>

unbundle bit_operations_syntax

record party_member =
  account_id :: int
  char_id :: int
  leader :: bool

record party =
  party_id :: int
  name :: string
  exp :: "1 word"
  item :: "2 word"
  member :: "party_member list"

definition MAX_PARTY :: nat where "MAX_PARTY = 12"

definition zero_member :: party_member where
  "zero_member = \<lparr>account_id = 0, char_id = 0, leader = False\<rparr>"

text \<open>\<open>memset(p, 0, sizeof( *p))\<close>\<close>

definition zero_party :: party where
  "zero_party = \<lparr>party_id = 0, name = [], exp = 0, item = 0, member = replicate MAX_PARTY zero_member\<rparr>"

text \<open>
  \<open>p->member[index]\<close>. The code does not check \<open>index\<close>; outside the array the read is
  undefined in C and is modelled as a zero member (every theorem assumes
  \<open>index < MAX_PARTY\<close>).
\<close>

definition member_at :: "party \<Rightarrow> nat \<Rightarrow> party_member" where
  "member_at p i = (if i < length (member p) then member p ! i else zero_member)"

text \<open>\<open>enum party_save_flags\<close> (char/partydb.h, not under src/).\<close>

definition PS_CREATE :: "32 word" where "PS_CREATE = 0x01"
definition PS_BASIC :: "32 word" where "PS_BASIC = 0x02"
definition PS_LEADER :: "32 word" where "PS_LEADER = 0x04"
definition PS_ADDMEMBER :: "32 word" where "PS_ADDMEMBER = 0x08"
definition PS_DELMEMBER :: "32 word" where "PS_DELMEMBER = 0x10"

definition has_flag :: "32 word \<Rightarrow> 32 word \<Rightarrow> bool" where
  "has_flag flag f \<longleftrightarrow> flag AND f \<noteq> 0"

text \<open>The name as bound or escaped: \<open>strnlen(p->name, NAME_LENGTH)\<close> characters.\<close>

definition name_col :: "string \<Rightarrow> string" where
  "name_col s = take NAME_LENGTH (takeWhile (\<lambda>c. c \<noteq> NUL) s)"

subsection \<open>\<open>mmo_party_tosql\<close>\<close>

text \<open>
  \<open>PS_CREATE\<close> (lines 108--134): insert the row, with \<open>NULL\<close> for the sentinel id \<open>-1\<close>,
  the first member's identity as leader; fill the sentinel with the insert id, and fail
  if an explicit id came back different.
\<close>

definition tosql_create :: "nat \<Rightarrow> party \<Rightarrow> sql_conn \<Rightarrow> bool \<times> party \<times> sql_conn" where
  "tosql_create index p c =
     (let m = member_at p index;
          r = \<lparr>row_party_id = party_id p, row_name = name_col (name p), row_exp = int (unat (exp p)),
               row_item = int (unat (item p)), row_leader_id = account_id m, row_leader_char = char_id m\<rparr>;
          (iid, c1) = sql_insert_party (if party_id p \<noteq> -1 then Some (party_id p) else None) r c
      in case iid of
           None \<Rightarrow> (False, p, c1)
         | Some i \<Rightarrow>
             (if party_id p = -1 then (True, p\<lparr>party_id := i\<rparr>, c1)
              else if party_id p \<noteq> i then (False, p, c1)
              else (True, p, c1)))"

text \<open>The four updates (lines 136--178), as changes of the tables.\<close>

definition upd_basic :: "party \<Rightarrow> sql_tables \<Rightarrow> sql_tables option" where
  "upd_basic p t =
     Some (t\<lparr>party_tab := map (\<lambda>r. if row_party_id r = party_id p
                                      then r\<lparr>row_name := name_col (name p), row_exp := int (unat (exp p)),
                                             row_item := int (unat (item p))\<rparr>
                                      else r) (party_tab t)\<rparr>)"

definition upd_leader :: "party \<Rightarrow> nat \<Rightarrow> sql_tables \<Rightarrow> sql_tables option" where
  "upd_leader p index t =
     Some (t\<lparr>party_tab := map (\<lambda>r. if row_party_id r = party_id p
                                      then r\<lparr>row_leader_id := account_id (member_at p index),
                                             row_leader_char := char_id (member_at p index)\<rparr>
                                      else r) (party_tab t)\<rparr>)"

definition upd_addmember :: "party \<Rightarrow> nat \<Rightarrow> sql_tables \<Rightarrow> sql_tables option" where
  "upd_addmember p index t =
     Some (t\<lparr>char_tab := map (\<lambda>r. if ch_account_id r = account_id (member_at p index) \<and>
                                        ch_char_id r = char_id (member_at p index)
                                     then r\<lparr>ch_party_id := party_id p\<rparr> else r) (char_tab t)\<rparr>)"

definition upd_delmember :: "party \<Rightarrow> nat \<Rightarrow> sql_tables \<Rightarrow> sql_tables option" where
  "upd_delmember p index t =
     Some (t\<lparr>char_tab := map (\<lambda>r. if ch_party_id r = party_id p \<and>
                                        ch_account_id r = account_id (member_at p index) \<and>
                                        ch_char_id r = char_id (member_at p index)
                                     then r\<lparr>ch_party_id := 0\<rparr> else r) (char_tab t)\<rparr>)"

text \<open>One step of the \<open>do { ... } while(0)\<close> body: run it when its flag is set.\<close>

definition when_flag :: "bool \<Rightarrow> (sql_tables \<Rightarrow> sql_tables option) \<Rightarrow> sql_conn \<Rightarrow> bool \<times> sql_conn" where
  "when_flag b f c = (if b then sql_exec f c else (True, c))"

text \<open>The body of the transaction; the first failing step breaks out.\<close>

definition tosql_body :: "32 word \<Rightarrow> nat \<Rightarrow> party \<Rightarrow> sql_conn \<Rightarrow> bool \<times> party \<times> sql_conn" where
  "tosql_body flag index p c =
     (let (ok1, p1, c1) = (if has_flag flag PS_CREATE then tosql_create index p c else (True, p, c))
      in if \<not> ok1 then (False, p1, c1) else
      let (ok2, c2) = when_flag (has_flag flag PS_BASIC) (upd_basic p1) c1
      in if \<not> ok2 then (False, p1, c2) else
      let (ok3, c3) = when_flag (has_flag flag PS_LEADER) (upd_leader p1 index) c2
      in if \<not> ok3 then (False, p1, c3) else
      let (ok4, c4) = when_flag (has_flag flag PS_ADDMEMBER) (upd_addmember p1 index) c3
      in if \<not> ok4 then (False, p1, c4) else
      let (ok5, c5) = when_flag (has_flag flag PS_DELMEMBER) (upd_delmember p1 index) c4
      in (ok5, p1, c5))"

definition mmo_party_tosql :: "32 word \<Rightarrow> nat \<Rightarrow> party \<Rightarrow> sql_conn \<Rightarrow> bool \<times> party \<times> sql_conn" where
  "mmo_party_tosql flag index p c =
     (if party_id p = 0 then (False, p, c)
      else let (s, c1) = sql_start_transaction c
           in if \<not> s then (False, p, c1)
              else let (ok, p', c2) = tosql_body flag index p c1;
                       (r, c3) = sql_finish ok c2
                   in (r, p', c3))"

subsection \<open>\<open>mmo_party_fromsql\<close>\<close>

text \<open>
  The leader flag of a loaded member: its identity against the row's leader columns
  (line 80).
\<close>

definition member_of_row :: "party_row \<Rightarrow> char_row \<Rightarrow> party_member" where
  "member_of_row pr cr =
     \<lparr>account_id = ch_account_id cr, char_id = ch_char_id cr,
      leader = (ch_account_id cr = row_leader_id pr \<and> ch_char_id cr = row_leader_char pr)\<rparr>"

text \<open>The fixed fields (lines 57--62): \<open>atoi\<close> of each column, the bit-fields truncated.\<close>

definition party_of_row :: "party_row \<Rightarrow> party" where
  "party_of_row pr =
     zero_party\<lparr>party_id := row_party_id pr, name := safestrncpy NAME_LENGTH (row_name pr),
                exp := word_of_int (row_exp pr), item := word_of_int (row_item pr)\<rparr>"

text \<open>
  The member slots (lines 75--81): the first \<open>MAX_PARTY\<close> characters of the party in the
  server's row order, the remaining slots left zero by the \<open>memset\<close>.
\<close>

definition members_of :: "party_row \<Rightarrow> char_row list \<Rightarrow> party_member list" where
  "members_of pr crs =
     (let ms = map (member_of_row pr) (take MAX_PARTY crs)
      in ms @ replicate (MAX_PARTY - length ms) zero_member)"

definition mmo_party_fromsql :: "int \<Rightarrow> sql_conn \<Rightarrow> bool \<times> party \<times> sql_conn" where
  "mmo_party_fromsql pid c =
     (let (q1, c1) = sql_select (\<lambda>t. filter (\<lambda>r. row_party_id r = pid) (party_tab t)) c
      in case q1 of
           None \<Rightarrow> (False, zero_party, c1)
         | Some [] \<Rightarrow> (False, zero_party, c1)
         | Some (pr # _) \<Rightarrow>
             (let (q2, c2) = sql_select (\<lambda>t. filter (\<lambda>r. ch_party_id r = pid) (char_tab t)) c1
              in case q2 of
                   None \<Rightarrow> (False, party_of_row pr, c2)
                 | Some crs \<Rightarrow> (True, (party_of_row pr)\<lparr>member := members_of pr crs\<rparr>, c2)))"

subsection \<open>The operations of the vtable\<close>

definition party_db_sql_create :: "party \<Rightarrow> sql_conn \<Rightarrow> bool \<times> party \<times> sql_conn" where
  "party_db_sql_create p c = mmo_party_tosql (or PS_CREATE PS_ADDMEMBER) 0 p c"

text \<open>
  \<open>party_db_sql_save\<close> (lines 261--265) casts the \<open>const\<close> away: the structure the caller
  passed is the one \<open>mmo_party_tosql\<close> writes the insert id into, so the result carries
  it.
\<close>

definition party_db_sql_save :: "party \<Rightarrow> 32 word \<Rightarrow> nat \<Rightarrow> sql_conn \<Rightarrow> bool \<times> party \<times> sql_conn" where
  "party_db_sql_save p flag index c = mmo_party_tosql flag index p c"

definition party_db_sql_load :: "int \<Rightarrow> sql_conn \<Rightarrow> bool \<times> party \<times> sql_conn" where
  "party_db_sql_load pid c = mmo_party_fromsql pid c"

text \<open>
  \<open>party_db_sql_remove\<close> (lines 222--259): in one transaction, detach every member, then
  delete the row; the \<open>||\<close> skips the delete when the update fails.
\<close>

definition detach_members :: "int \<Rightarrow> sql_tables \<Rightarrow> sql_tables option" where
  "detach_members pid t =
     Some (t\<lparr>char_tab := map (\<lambda>r. if ch_party_id r = pid then r\<lparr>ch_party_id := 0\<rparr> else r) (char_tab t)\<rparr>)"

definition delete_party :: "int \<Rightarrow> sql_tables \<Rightarrow> sql_tables option" where
  "delete_party pid t = Some (t\<lparr>party_tab := filter (\<lambda>r. row_party_id r \<noteq> pid) (party_tab t)\<rparr>)"

definition party_db_sql_remove :: "int \<Rightarrow> sql_conn \<Rightarrow> bool \<times> sql_conn" where
  "party_db_sql_remove pid c =
     (let (s, c1) = sql_start_transaction c
      in if \<not> s then (False, c1)
         else let (ok1, c2) = sql_exec (detach_members pid) c1;
                  (ok, c3) = (if ok1 then sql_exec (delete_party pid) c2 else (False, c2));
                  (r, c4) = sql_finish ok c3
              in (r, c4))"

text \<open>
  \<open>party_db_sql_name2id\<close> (lines 277--313). The name comparison of the query is exact
  with \<open>BINARY\<close> and otherwise the column's case-insensitive collation, modelled as
  equality up to ASCII case. The result is the returned flag and the new content of
  \<open>*party_id\<close>, which is written only on success.
\<close>

definition ascii_lower :: "char \<Rightarrow> char" where
  "ascii_lower ch = (if 65 \<le> (of_char ch :: nat) \<and> (of_char ch :: nat) \<le> 90 then char_of (of_char ch + (32::nat)) else ch)"

definition name_matches :: "bool \<Rightarrow> string \<Rightarrow> string \<Rightarrow> bool" where
  "name_matches case_sensitive a b \<longleftrightarrow>
     (if case_sensitive then a = b else map ascii_lower a = map ascii_lower b)"

definition party_db_sql_name2id :: "bool \<Rightarrow> string \<Rightarrow> int \<Rightarrow> sql_conn \<Rightarrow> bool \<times> int \<times> sql_conn" where
  "party_db_sql_name2id case_sensitive nm out c =
     (let (q, c1) = sql_select (\<lambda>t. map row_party_id (filter (\<lambda>r. name_matches case_sensitive (row_name r) nm)
                                                              (party_tab t))) c
      in case q of
           None \<Rightarrow> (False, out, c1)
         | Some ids \<Rightarrow> (if 1 < length ids then (False, out, c1)
                        else case ids of [] \<Rightarrow> (False, out, c1) | i # _ \<Rightarrow> (True, i, c1)))"

text \<open>
  \<open>party_db_sql_iterator\<close> returns the generic cursor \<open>csdb_sql_iterator\<close> of
  char/charserverdb_sql.c (not under src/), keyed by \<open>party_id\<close>: each advance queries the
  smallest key above the last one returned; no row, or a failed query, ends the
  iteration. The cursor's state is the last key (\<open>None\<close> before the first advance).
\<close>

definition key_above :: "int option \<Rightarrow> int \<Rightarrow> bool" where
  "key_above lk k = (case lk of None \<Rightarrow> True | Some l \<Rightarrow> l < k)"

definition party_iter_next :: "int option \<Rightarrow> sql_conn \<Rightarrow> int option \<times> sql_conn" where
  "party_iter_next lk c =
     (let (q, c1) = sql_select (\<lambda>t. sort (filter (key_above lk) (map row_party_id (party_tab t)))) c
      in case q of None \<Rightarrow> (None, c1) | Some [] \<Rightarrow> (None, c1) | Some (k # _) \<Rightarrow> (Some k, c1))"

text \<open>A caller's loop over the cursor until it reports the end: the keys it sees.\<close>

function party_iter_all :: "int option \<Rightarrow> sql_conn \<Rightarrow> int list \<times> sql_conn" where
  "party_iter_all lk c =
     (case party_iter_next lk c of
        (None, c1) \<Rightarrow> ([], c1)
      | (Some k, c1) \<Rightarrow> (let (ks, c2) = party_iter_all (Some k) c1 in (k # ks, c2)))"
  by pat_completeness auto
termination
proof (relation "measure (\<lambda>(lk, c). length (filter (key_above lk) (map row_party_id (party_tab (tables c)))))")
  show "wf (measure (\<lambda>(lk, c). length (filter (key_above lk) (map row_party_id (party_tab (tables c))))))"
    by simp
next
  fix lk c x c1 k
  assume x: "(x, c1) = party_iter_next lk c" and k: "x = Some k"
  let ?ids = "map row_party_id (party_tab (tables c))"
  obtain flt c0 where f: "sql_fault c = (flt, c0)" by (cases "sql_fault c")
  have t0: "tables c0 = tables c" using f by (auto simp: sql_fault_def split: list.splits)
  let ?l = "sort (filter (key_above lk) (map row_party_id (party_tab (tables c0))))"
  have nf: "\<not> flt" using x k f by (auto simp: party_iter_next_def sql_select_def)
  obtain ks where l: "?l = k # ks" and c1: "c1 = c0"
    using x k f nf by (cases ?l) (auto simp: party_iter_next_def sql_select_def)
  have "k \<in> set ?l" using l by simp
  then have ks: "key_above lk k" "k \<in> set ?ids" using t0 by simp_all
  have le: "filter (key_above (Some k)) ?ids = filter (key_above (Some k)) (filter (key_above lk) ?ids)"
    using ks(1) by (auto simp: key_above_def intro!: filter_cong split: option.splits)
  have "length (filter (key_above (Some k)) (filter (key_above lk) ?ids)) < length (filter (key_above lk) ?ids)"
    using ks by (intro length_filter_less) (auto simp: key_above_def)
  then have m: "length (filter (key_above (Some k)) ?ids) < length (filter (key_above lk) ?ids)"
    by (subst le)
  show "((Some k, c1), lk, c)
        \<in> measure (\<lambda>(lk, c). length (filter (key_above lk) (map row_party_id (party_tab (tables c)))))"
    unfolding in_measure split_conv c1 t0 by (rule m)
qed

declare party_iter_all.simps [simp del]

subsection \<open>The interface: the vtable of \<open>party_db_sql\<close>\<close>

text \<open>
  \<open>struct PartyDB_SQL\<close>: whether the connection handle is set (\<open>init\<close> copies the owner's,
  \<open>destroy\<close> clears it) and the name-comparison setting. The table names are
  configuration and not modelled.
\<close>

record PartyDB_SQL =
  parties :: bool
  case_sensitive :: bool

definition party_db_sql :: PartyDB_SQL where
  "party_db_sql = \<lparr>parties = False, case_sensitive = False\<rparr>"

datatype party_op =
    PInit
  | PDestroy
  | PSync
  | PCreate party
  | PRemove int
  | PSave party "32 word" nat
  | PLoad int
  | PName2id string int

datatype party_res = PBool bool | PParty bool party | PId bool int

fun party_db_sql_call :: "party_op \<Rightarrow> PartyDB_SQL \<times> sql_conn \<Rightarrow> party_res \<times> PartyDB_SQL \<times> sql_conn" where
  "party_db_sql_call PInit (db, c) = (PBool True, db\<lparr>parties := True\<rparr>, c)"
| "party_db_sql_call PDestroy (db, c) = (PBool True, db\<lparr>parties := False\<rparr>, c)"
| "party_db_sql_call PSync (db, c) = (PBool True, db, c)"
| "party_db_sql_call (PCreate p) (db, c) = (let (r, p', c') = party_db_sql_create p c in (PParty r p', db, c'))"
| "party_db_sql_call (PRemove pid) (db, c) = (let (r, c') = party_db_sql_remove pid c in (PBool r, db, c'))"
| "party_db_sql_call (PSave p flag index) (db, c) = (let (r, p', c') = party_db_sql_save p flag index c in (PParty r p', db, c'))"
| "party_db_sql_call (PLoad pid) (db, c) = (let (r, p, c') = party_db_sql_load pid c in (PParty r p, db, c'))"
| "party_db_sql_call (PName2id nm out) (db, c) =
     (let (r, i, c') = party_db_sql_name2id (case_sensitive db) nm out c in (PId r i, db, c'))"

subsection \<open>The abstract contract of \<open>save\<close>\<close>

text \<open>
  What a save promises (spec, section 4.2): the selected updates, applied together, as a
  function of the tables; nothing else changes. The updates never fail at this level,
  so each is taken out of its \<open>Some\<close>.
\<close>

definition apply_upd :: "bool \<Rightarrow> (sql_tables \<Rightarrow> sql_tables option) \<Rightarrow> sql_tables \<Rightarrow> sql_tables" where
  "apply_upd b f t = (if b then the (f t) else t)"

definition party_updates :: "32 word \<Rightarrow> nat \<Rightarrow> party \<Rightarrow> sql_tables \<Rightarrow> sql_tables" where
  "party_updates flag index p t =
     apply_upd (has_flag flag PS_DELMEMBER) (upd_delmember p index)
      (apply_upd (has_flag flag PS_ADDMEMBER) (upd_addmember p index)
        (apply_upd (has_flag flag PS_LEADER) (upd_leader p index)
          (apply_upd (has_flag flag PS_BASIC) (upd_basic p) t)))"

text \<open>
  The backend as a state machine: a fresh store (no party, any characters, counter 1),
  then any sequence of calls through the vtable, under any fault schedule.
\<close>

inductive party_reachable :: "PartyDB_SQL \<times> sql_conn \<Rightarrow> bool" where
  init: "party_reachable (party_db_sql, \<lparr>tables = \<lparr>party_tab = [], char_tab = cs\<rparr>, auto_inc = 1,
                                          snapshot = None, faults = fs\<rparr>)"
| step: "party_reachable s \<Longrightarrow> party_db_sql_call op s = (res, s') \<Longrightarrow> party_reachable s'"

subsection \<open>Lemmas\<close>

lemma upd_Some: "upd_basic p t \<noteq> None" "upd_leader p i t \<noteq> None" "upd_addmember p i t \<noteq> None" "upd_delmember p i t \<noteq> None"
  by (simp_all add: upd_basic_def upd_leader_def upd_addmember_def upd_delmember_def)

lemma when_flag_cases:
  assumes "when_flag b f c = (ok, c')" and "\<And>t. f t \<noteq> None"
  shows "snapshot c' = snapshot c \<and> auto_inc c' = auto_inc c \<and>
         (ok \<longrightarrow> tables c' = apply_upd b f (tables c))"
proof (cases b)
  case True
  with assms(1) have "sql_exec f c = (ok, c')" by (simp add: when_flag_def)
  from sql_exec_cases [OF this] assms(2) True show ?thesis
    by (auto simp: apply_upd_def)
next
  case False
  with assms(1) show ?thesis by (simp add: when_flag_def apply_upd_def)
qed

lemma tosql_create_cases:
  assumes "tosql_create index p c = (ok, p1, c1)"
  shows "snapshot c1 = snapshot c \<and> auto_inc c \<le> auto_inc c1 \<and>
         (ok \<longrightarrow> (\<exists>i. i \<notin> set (map row_party_id (party_tab (tables c))) \<and>
                     i = (if party_id p = -1 then auto_inc c else party_id p) \<and>
                     p1 = p\<lparr>party_id := i\<rparr> \<and> auto_inc c1 = max (auto_inc c) (i + 1) \<and>
                     tables c1 = (tables c)\<lparr>party_tab := party_tab (tables c) @
                        [\<lparr>row_party_id = i, row_name = name_col (name p), row_exp = int (unat (exp p)),
                          row_item = int (unat (item p)), row_leader_id = account_id (member_at p index),
                          row_leader_char = char_id (member_at p index)\<rparr>]\<rparr>))"
proof -
  let ?r = "\<lparr>row_party_id = party_id p, row_name = name_col (name p), row_exp = int (unat (exp p)),
               row_item = int (unat (item p)), row_leader_id = account_id (member_at p index),
               row_leader_char = char_id (member_at p index)\<rparr>"
  let ?pid = "if party_id p \<noteq> -1 then Some (party_id p) else None"
  obtain iid c0 where ins: "sql_insert_party ?pid ?r c = (iid, c0)" by (cases "sql_insert_party ?pid ?r c")
  note ic = sql_insert_cases [OF ins]
  have res: "tosql_create index p c =
      (case iid of None \<Rightarrow> (False, p, c0)
       | Some i \<Rightarrow> (if party_id p = -1 then (True, p\<lparr>party_id := i\<rparr>, c0)
                    else if party_id p \<noteq> i then (False, p, c0) else (True, p, c0)))"
    unfolding tosql_create_def Let_def ins by simp
  show ?thesis
  proof (cases iid)
    case None
    then show ?thesis using assms res ic by auto
  next
    case (Some i)
    then show ?thesis using assms res ic by (auto split: if_splits)
  qed
qed


lemma tosql_body_cases:
  assumes "tosql_body flag index p c = (ok, p', c')"
  shows "snapshot c' = snapshot c \<and> auto_inc c \<le> auto_inc c' \<and>
    (\<not> has_flag flag PS_CREATE \<longrightarrow> p' = p \<and> auto_inc c' = auto_inc c \<and>
        (ok \<longrightarrow> tables c' = party_updates flag index p (tables c))) \<and>
    (has_flag flag PS_CREATE \<longrightarrow> ok \<longrightarrow>
        (\<exists>c1. tosql_create index p c = (True, p', c1) \<and> tables c' = party_updates flag index p' (tables c1)
              \<and> auto_inc c' = auto_inc c1)) \<and>
    (has_flag flag PS_CREATE \<longrightarrow> (\<exists>ok1 c1. tosql_create index p c = (ok1, p', c1) \<and> auto_inc c' = auto_inc c1))"
proof -
  obtain ok1 p1 c1 where s1: "(if has_flag flag PS_CREATE then tosql_create index p c else (True, p, c)) = (ok1, p1, c1)"
    by (metis prod_cases3)
  obtain ok2 c2 where s2: "when_flag (has_flag flag PS_BASIC) (upd_basic p1) c1 = (ok2, c2)" by fastforce
  obtain ok3 c3 where s3: "when_flag (has_flag flag PS_LEADER) (upd_leader p1 index) c2 = (ok3, c3)" by fastforce
  obtain ok4 c4 where s4: "when_flag (has_flag flag PS_ADDMEMBER) (upd_addmember p1 index) c3 = (ok4, c4)" by fastforce
  obtain ok5 c5 where s5: "when_flag (has_flag flag PS_DELMEMBER) (upd_delmember p1 index) c4 = (ok5, c5)" by fastforce
  have body: "tosql_body flag index p c =
      (if \<not> ok1 then (False, p1, c1) else if \<not> ok2 then (False, p1, c2) else if \<not> ok3 then (False, p1, c3)
       else if \<not> ok4 then (False, p1, c4) else (ok5, p1, c5))"
    unfolding tosql_body_def s1 by (simp add: s2 s3 s4 s5)
  note w2 = when_flag_cases [OF s2 upd_Some(1)] and w3 = when_flag_cases [OF s3 upd_Some(2)]
    and w4 = when_flag_cases [OF s4 upd_Some(3)] and w5 = when_flag_cases [OF s5 upd_Some(4)]
  have c1: "snapshot c1 = snapshot c \<and> auto_inc c \<le> auto_inc c1 \<and>
      (\<not> has_flag flag PS_CREATE \<longrightarrow> ok1 \<and> p1 = p \<and> c1 = c)"
    using s1 tosql_create_cases [of index p c ok1 p1 c1] by (auto split: if_splits)
  have p': "p' = p1" using assms body by (auto split: if_splits)
  have cs: "c' = c1 \<or> c' = c2 \<or> c' = c3 \<or> c' = c4 \<or> c' = c5"
    using assms body by (auto split: if_splits)
  have sn: "snapshot c2 = snapshot c1" "snapshot c3 = snapshot c1" "snapshot c4 = snapshot c1" "snapshot c5 = snapshot c1"
    and an: "auto_inc c2 = auto_inc c1" "auto_inc c3 = auto_inc c1" "auto_inc c4 = auto_inc c1" "auto_inc c5 = auto_inc c1"
    using w2 w3 w4 w5 by simp_all
  have snap: "snapshot c' = snapshot c" and ai: "auto_inc c' = auto_inc c1"
    using cs sn an c1 by auto
  have upd: "ok \<Longrightarrow> tables c' = party_updates flag index p1 (tables c1)"
    using assms body w2 w3 w4 w5 by (auto simp: party_updates_def split: if_splits)
  have ok1: "ok \<Longrightarrow> ok1" using assms body by (auto split: if_splits)
  have crt: "has_flag flag PS_CREATE \<longrightarrow> (\<exists>ok1 c1. tosql_create index p c = (ok1, p', c1) \<and> auto_inc c' = auto_inc c1)"
    using s1 p' ai by auto
  have main: "snapshot c' = snapshot c \<and> auto_inc c \<le> auto_inc c' \<and>
    (\<not> has_flag flag PS_CREATE \<longrightarrow> p' = p \<and> auto_inc c' = auto_inc c \<and>
        (ok \<longrightarrow> tables c' = party_updates flag index p (tables c))) \<and>
    (has_flag flag PS_CREATE \<longrightarrow> ok \<longrightarrow>
        (\<exists>c1. tosql_create index p c = (True, p', c1) \<and> tables c' = party_updates flag index p' (tables c1)
              \<and> auto_inc c' = auto_inc c1))"
    using snap ai c1 p' upd ok1 s1 by auto
  show ?thesis using main crt by blast
qed


lemma tosql_cases:
  assumes none: "snapshot c = None" and res: "mmo_party_tosql flag index p c = (r, p', c')"
  shows "snapshot c' = None \<and> auto_inc c \<le> auto_inc c' \<and> (\<not> r \<longrightarrow> tables c' = tables c) \<and>
    (\<not> has_flag flag PS_CREATE \<longrightarrow> p' = p \<and> auto_inc c' = auto_inc c) \<and>
    (r \<longrightarrow> party_id p \<noteq> 0 \<and> (\<exists>c1 c2. tables c1 = tables c \<and> auto_inc c1 = auto_inc c \<and>
             tosql_body flag index p c1 = (True, p', c2) \<and> tables c' = tables c2 \<and> auto_inc c' = auto_inc c2))"
proof (cases "party_id p = 0")
  case True
  then show ?thesis using assms by (simp add: mmo_party_tosql_def)
next
  case False
  obtain s c1 where st: "sql_start_transaction c = (s, c1)" by fastforce
  note sc = sql_start_cases [OF st]
  show ?thesis
  proof (cases s)
    case False
    then show ?thesis using assms st sc \<open>party_id p \<noteq> 0\<close> by (simp add: mmo_party_tosql_def)
  next
    case True
    obtain ok p2 c2 where bd: "tosql_body flag index p c1 = (ok, p2, c2)" by (metis prod_cases3)
    obtain r3 c3 where fin: "sql_finish ok c2 = (r3, c3)" by fastforce
    have eq: "r = r3" "p' = p2" "c' = c3"
      using res st bd fin True \<open>party_id p \<noteq> 0\<close> by (simp_all add: mmo_party_tosql_def)
    note bc = tosql_body_cases [OF bd] and fc = sql_finish_cases [OF fin]
    have snap2: "snapshot c2 = Some (tables c)" using bc sc True by simp
    have t1: "tables c1 = tables c" "auto_inc c1 = auto_inc c" using sc by simp_all
    have a: "snapshot c' = None" "auto_inc c \<le> auto_inc c'" using eq fc bc t1 by simp_all
    have b: "\<not> r \<longrightarrow> tables c' = tables c" using eq fc snap2 by simp
    have d: "\<not> has_flag flag PS_CREATE \<longrightarrow> p' = p \<and> auto_inc c' = auto_inc c" using eq bc fc t1 by simp
    have e: "r \<longrightarrow> (\<exists>c1 c2. tables c1 = tables c \<and> auto_inc c1 = auto_inc c \<and>
             tosql_body flag index p c1 = (True, p', c2) \<and> tables c' = tables c2 \<and> auto_inc c' = auto_inc c2)"
    proof
      assume r
      then have "ok" "tables c3 = tables c2" "auto_inc c3 = auto_inc c2" using eq fc by simp_all
      then show "\<exists>c1 c2. tables c1 = tables c \<and> auto_inc c1 = auto_inc c \<and>
             tosql_body flag index p c1 = (True, p', c2) \<and> tables c' = tables c2 \<and> auto_inc c' = auto_inc c2"
        using bd t1 eq by (intro exI [of _ c1] exI [of _ c2]) simp
    qed
    show ?thesis using a b d e \<open>party_id p \<noteq> 0\<close> by blast
  qed
qed



lemma party_updates_ids [simp]:
  "map row_party_id (party_tab (party_updates flag index p t)) = map row_party_id (party_tab t)"
  by (simp add: party_updates_def apply_upd_def upd_basic_def upd_leader_def upd_addmember_def
      upd_delmember_def comp_def)

text \<open>
  C23: refinement of the save contract. For every flag set without \<open>PS_CREATE\<close>, a
  call of \<open>mmo_party_tosql\<close> between transactions either succeeds and leaves the tables
  exactly as the abstract \<open>party_updates\<close> prescribes, or fails and leaves them as they
  were, under every fault schedule; the caller's structure and the counter are unchanged.
\<close>

theorem party_save_atomic:
  assumes "snapshot c = None" and "\<not> has_flag flag PS_CREATE"
    and "mmo_party_tosql flag index p c = (r, p', c')"
  shows "p' = p \<and> snapshot c' = None \<and> auto_inc c' = auto_inc c \<and>
         (r \<longrightarrow> tables c' = party_updates flag index p (tables c)) \<and> (\<not> r \<longrightarrow> tables c' = tables c)"
proof -
  note tc = tosql_cases [OF assms(1,3)]
  have "r \<Longrightarrow> tables c' = party_updates flag index p (tables c)"
  proof -
    assume r
    then obtain c1 c2 where "tables c1 = tables c" "tosql_body flag index p c1 = (True, p', c2)" "tables c' = tables c2"
      using tc by blast
    with tosql_body_cases [of flag index p c1 True p' c2] assms(2) show ?thesis by simp
  qed
  with tc assms(2) show ?thesis by auto
qed

text \<open>
  C24: a failed \<open>mmo_party_tosql\<close> (create or save, any flags, any fault) leaves
  the tables exactly as before the call and no transaction open.
\<close>

theorem party_tosql_fail_atomic:
  assumes "snapshot c = None" and "mmo_party_tosql flag index p c = (False, p', c')"
  shows "tables c' = tables c \<and> snapshot c' = None"
  using tosql_cases [OF assms] by simp

text \<open>
  C25: with no statement failing, a save of a party with a non-zero id succeeds and
  applies exactly the selected updates.
\<close>

theorem party_save_no_faults:
  assumes "faults c = []" "snapshot c = None" "party_id p \<noteq> 0" "\<not> has_flag flag PS_CREATE"
  shows "mmo_party_tosql flag index p c = (True, p, c\<lparr>tables := party_updates flag index p (tables c)\<rparr>)"
  using assms by (simp add: mmo_party_tosql_def sql_start_transaction_def tosql_body_def when_flag_def
      sql_exec_def sql_finish_def party_updates_def apply_upd_def upd_Some split: option.splits)


lemma create_flags:
  "has_flag (or PS_CREATE PS_ADDMEMBER) PS_CREATE" "\<not> has_flag (or PS_CREATE PS_ADDMEMBER) PS_BASIC"
  "\<not> has_flag (or PS_CREATE PS_ADDMEMBER) PS_LEADER" "has_flag (or PS_CREATE PS_ADDMEMBER) PS_ADDMEMBER"
  "\<not> has_flag (or PS_CREATE PS_ADDMEMBER) PS_DELMEMBER"
  by (simp_all add: has_flag_def PS_CREATE_def PS_BASIC_def PS_LEADER_def PS_ADDMEMBER_def PS_DELMEMBER_def)

lemma party_tab_member_updates:
  "\<not> has_flag flag PS_BASIC \<Longrightarrow> \<not> has_flag flag PS_LEADER \<Longrightarrow>
   party_tab (party_updates flag index p t) = party_tab t"
  by (simp add: party_updates_def apply_upd_def upd_addmember_def upd_delmember_def)

lemma create_success:
  assumes "snapshot c = None" and "party_db_sql_create p c = (True, p', c')"
  shows "\<exists>i. i \<notin> set (map row_party_id (party_tab (tables c))) \<and>
            i = (if party_id p = -1 then auto_inc c else party_id p) \<and> p' = p\<lparr>party_id := i\<rparr> \<and>
            auto_inc c' = max (auto_inc c) (i + 1) \<and>
            party_tab (tables c') = party_tab (tables c) @
              [\<lparr>row_party_id = i, row_name = name_col (name p), row_exp = int (unat (exp p)),
                 row_item = int (unat (item p)), row_leader_id = account_id (member_at p 0),
                 row_leader_char = char_id (member_at p 0)\<rparr>] \<and>
            char_tab (tables c') = char_tab (the (upd_addmember p' 0 (tables c)))"
proof -
  let ?f = "or PS_CREATE PS_ADDMEMBER"
  have tc: "mmo_party_tosql ?f 0 p c = (True, p', c')" using assms(2) by (simp add: party_db_sql_create_def)
  obtain c1 c2 where c1: "tables c1 = tables c" "auto_inc c1 = auto_inc c"
    and bd: "tosql_body ?f 0 p c1 = (True, p', c2)" and c2: "tables c' = tables c2" "auto_inc c' = auto_inc c2"
    using tosql_cases [OF assms(1) tc] by blast
  obtain c3 where cr: "tosql_create 0 p c1 = (True, p', c3)"
    and t2: "tables c2 = party_updates ?f 0 p' (tables c3)" and a2: "auto_inc c2 = auto_inc c3"
    using tosql_body_cases [OF bd] create_flags(1) by blast
  show ?thesis
    using tosql_create_cases [OF cr] c1 c2 t2 a2 create_flags
    by (auto simp: party_updates_def apply_upd_def upd_addmember_def)
qed


text \<open>
  C27: creating a party with an explicit id that is already taken fails and leaves
  the tables unchanged.
\<close>

theorem party_create_collision:
  assumes "snapshot c = None" and "party_id p \<noteq> -1"
    and "party_id p \<in> set (map row_party_id (party_tab (tables c)))"
    and "party_db_sql_create p c = (r, p', c')"
  shows "\<not> r \<and> tables c' = tables c"
proof -
  have "\<not> r"
  proof
    assume r
    with assms(4) have "party_db_sql_create p c = (True, p', c')" by simp
    from create_success [OF assms(1) this] assms(2,3) show False by auto
  qed
  moreover have "mmo_party_tosql (or PS_CREATE PS_ADDMEMBER) 0 p c = (False, p', c')"
    using assms(4) \<open>\<not> r\<close> by (simp add: party_db_sql_create_def)
  ultimately show ?thesis using tosql_cases [OF assms(1)] by blast
qed



lemma members_of_length [simp]: "length (members_of pr crs) = MAX_PARTY"
  by (simp add: members_of_def Let_def)

lemma fromsql_cases:
  assumes "mmo_party_fromsql pid c = (r, q, c')"
  shows "tables c' = tables c \<and> auto_inc c' = auto_inc c \<and> snapshot c' = snapshot c \<and>
         length (member q) = MAX_PARTY"
proof -
  obtain q1 c1 where s1: "sql_select (\<lambda>t. filter (\<lambda>r. row_party_id r = pid) (party_tab t)) c = (q1, c1)" by fastforce
  obtain q2 c2 where s2: "sql_select (\<lambda>t. filter (\<lambda>r. ch_party_id r = pid) (char_tab t)) c1 = (q2, c2)" by fastforce
  note a = sql_select_cases [OF s1] and b = sql_select_cases [OF s2]
  show ?thesis
    using assms a b s1 s2
    by (auto simp: mmo_party_fromsql_def zero_party_def party_of_row_def split: option.splits list.splits)
qed

lemma fromsql_no_fault:
  assumes "faults c = []" and "filter (\<lambda>r. row_party_id r = pid) (party_tab (tables c)) = [pr]"
  shows "mmo_party_fromsql pid c =
           (True, (party_of_row pr)\<lparr>member := members_of pr (filter (\<lambda>r. ch_party_id r = pid) (char_tab (tables c)))\<rparr>, c)"
  using assms by (simp add: mmo_party_fromsql_def sql_select_no_fault)


lemma basic_flags:
  "\<not> has_flag PS_BASIC PS_CREATE" "has_flag PS_BASIC PS_BASIC" "\<not> has_flag PS_BASIC PS_LEADER"
  "\<not> has_flag PS_BASIC PS_ADDMEMBER" "\<not> has_flag PS_BASIC PS_DELMEMBER"
  by (simp_all add: has_flag_def PS_CREATE_def PS_BASIC_def PS_LEADER_def PS_ADDMEMBER_def PS_DELMEMBER_def)

lemma name_col_id: "NUL \<notin> set s \<Longrightarrow> length s < NAME_LENGTH \<Longrightarrow> name_col s = s"
proof -
  assume n: "NUL \<notin> set s" and l: "length s < NAME_LENGTH"
  have tw: "takeWhile (\<lambda>c. c \<noteq> NUL) s = s" using n by (intro takeWhile_all_eq) auto
  show ?thesis unfolding name_col_def tw using l by simp
qed

lemma filter_map_update:
  "(\<And>r. P r \<Longrightarrow> P (f r)) \<Longrightarrow> filter P (map (\<lambda>r. if P r then f r else r) xs) = map f (filter P xs)"
  by (induction xs) auto

text \<open>
  C29: a successful \<open>PS_BASIC\<close> save of a party that has its row, with a name that fits
  its buffer, followed by a load with no fault, returns the saved name and option bits
  under the same id.
\<close>

theorem party_save_then_load:
  assumes "snapshot c = None" and "party_db_sql_save p PS_BASIC index c = (True, p', c')" and "faults c' = []"
    and "filter (\<lambda>r. row_party_id r = party_id p) (party_tab (tables c)) = [pr]"
    and "NUL \<notin> set (name p)" and "length (name p) < NAME_LENGTH"
  shows "\<exists>q. party_db_sql_load (party_id p) c' = (True, q, c') \<and> party_id q = party_id p \<and>
             name q = name p \<and> exp q = exp p \<and> item q = item p"
proof -
  have tc: "mmo_party_tosql PS_BASIC index p c = (True, p', c')" using assms(2) by (simp add: party_db_sql_save_def)
  obtain c1 c2 where t1: "tables c1 = tables c" and bd: "tosql_body PS_BASIC index p c1 = (True, p', c2)"
    and t2: "tables c' = tables c2"
    using tosql_cases [OF assms(1) tc] by blast
  have "tables c2 = party_updates PS_BASIC index p (tables c1)"
    using tosql_body_cases [OF bd] basic_flags by simp
  then have tab: "party_tab (tables c') = map (\<lambda>r. if row_party_id r = party_id p
                     then r\<lparr>row_name := name_col (name p), row_exp := int (unat (exp p)), row_item := int (unat (item p))\<rparr>
                     else r) (party_tab (tables c))"
    using t1 t2 basic_flags by (simp add: party_updates_def apply_upd_def upd_basic_def)
  let ?pr = "pr\<lparr>row_name := name_col (name p), row_exp := int (unat (exp p)), row_item := int (unat (item p))\<rparr>"
  have one: "filter (\<lambda>r. row_party_id r = party_id p) (party_tab (tables c')) = [?pr]"
  proof -
    have "filter (\<lambda>r. row_party_id r = party_id p) (party_tab (tables c')) =
          map (\<lambda>r. r\<lparr>row_name := name_col (name p), row_exp := int (unat (exp p)), row_item := int (unat (item p))\<rparr>)
              (filter (\<lambda>r. row_party_id r = party_id p) (party_tab (tables c)))"
      unfolding tab by (rule filter_map_update) simp
    then show ?thesis using assms(4) by simp
  qed
  have "pr \<in> set (filter (\<lambda>r. row_party_id r = party_id p) (party_tab (tables c)))" using assms(4) by simp
  then have pid: "row_party_id pr = party_id p" by simp
  have nm: "name_col (name p) = name p" using name_col_id [OF assms(5,6)] .
  have nm2: "safestrncpy NAME_LENGTH (name p) = name p" using safestrncpy_id [OF assms(6) assms(5)] .
  show ?thesis
    using fromsql_no_fault [OF assms(3) one] pid nm nm2
    by (simp add: party_db_sql_load_def party_of_row_def zero_party_def)
qed

lemma party_remove_cases:
  assumes "snapshot c = None" and "party_db_sql_remove pid c = (r, c')"
  shows "snapshot c' = None \<and> auto_inc c' = auto_inc c \<and>
         (r \<longrightarrow> tables c' = the (delete_party pid (the (detach_members pid (tables c))))) \<and>
         (\<not> r \<longrightarrow> tables c' = tables c)"
proof -
  obtain s c1 where st: "sql_start_transaction c = (s, c1)" by fastforce
  note sc = sql_start_cases [OF st]
  show ?thesis
  proof (cases s)
    case False
    then show ?thesis using assms st sc by (simp add: party_db_sql_remove_def)
  next
    case True
    obtain ok1 c2 where e1: "sql_exec (detach_members pid) c1 = (ok1, c2)" by fastforce
    obtain ok c3 where e2: "(if ok1 then sql_exec (delete_party pid) c2 else (False, c2)) = (ok, c3)" by fastforce
    obtain r4 c4 where fin: "sql_finish ok c3 = (r4, c4)" by fastforce
    have eq: "r = r4" "c' = c4" using assms(2) st True e1 e2 fin by (simp_all add: party_db_sql_remove_def)
    note x1 = sql_exec_cases [OF e1] and fc = sql_finish_cases [OF fin]
    have x2: "snapshot c3 = snapshot c2 \<and> auto_inc c3 = auto_inc c2 \<and>
              (ok \<longrightarrow> ok1 \<and> delete_party pid (tables c2) = Some (tables c3))"
      using e2 sql_exec_cases [of "delete_party pid" c2] by (auto split: if_splits)
    show ?thesis
      using eq x1 x2 fc sc True by (auto simp: detach_members_def delete_party_def)
  qed
qed

text \<open>
  C30: a successful \<open>remove\<close> deletes the party row and leaves no character attached
  to the party; a failed one leaves the tables unchanged.
\<close>

theorem party_remove_spec:
  assumes "snapshot c = None" and "pid \<noteq> 0" and "party_db_sql_remove pid c = (r, c')"
  shows "(r \<longrightarrow> party_tab (tables c') = filter (\<lambda>x. row_party_id x \<noteq> pid) (party_tab (tables c)) \<and>
               (\<forall>cr\<in>set (char_tab (tables c')). ch_party_id cr \<noteq> pid)) \<and>
         (\<not> r \<longrightarrow> tables c' = tables c) \<and> snapshot c' = None"
  using party_remove_cases [OF assms(1,3)] assms(2) by (auto simp: detach_members_def delete_party_def)

text \<open>
  C31: with no fault, \<open>remove\<close> of an id that has no party row succeeds and deletes
  nothing; the specification says it fails.
\<close>

theorem party_remove_absent:
  assumes "faults c = []" and "snapshot c = None"
    and "pid \<notin> set (map row_party_id (party_tab (tables c)))"
  shows "fst (party_db_sql_remove pid c) = True \<and>
         party_tab (tables (snd (party_db_sql_remove pid c))) = party_tab (tables c)"
proof -
  have "filter (\<lambda>x. row_party_id x \<noteq> pid) (party_tab (tables c)) = party_tab (tables c)"
    using assms(3) by (auto intro: filter_True)
  then show ?thesis
    using assms(1,2) by (simp add: party_db_sql_remove_def sql_start_transaction_def sql_exec_def
        sql_finish_def detach_members_def delete_party_def)
qed

lemma name_matches_refl [simp]: "name_matches cs s s"
  by (simp add: name_matches_def)

lemma name2id_no_fault:
  "faults c = [] \<Longrightarrow>
   party_db_sql_name2id cs nm out c =
     (case map row_party_id (filter (\<lambda>r. name_matches cs (row_name r) nm) (party_tab (tables c))) of
        [i] \<Rightarrow> (True, i, c)
      | _ \<Rightarrow> (False, out, c))"
proof -
  assume "faults c = []"
  moreover obtain L where L: "map row_party_id (filter (\<lambda>r. name_matches cs (row_name r) nm) (party_tab (tables c))) = L"
    by blast
  ultimately show ?thesis
    by (cases L rule: remdups_adj.cases) (simp_all add: party_db_sql_name2id_def sql_select_no_fault)
qed

text \<open>
  C32: with no fault, \<open>name2id\<close> succeeds exactly when one party's name matches, and
  then returns its id; in every other case it returns false and leaves the output alone.
\<close>

theorem party_name2id_spec:
  "faults c = [] \<Longrightarrow>
   party_db_sql_name2id cs nm out c =
     (case map row_party_id (filter (\<lambda>r. name_matches cs (row_name r) nm) (party_tab (tables c))) of
        [i] \<Rightarrow> (True, i, c)
      | _ \<Rightarrow> (False, out, c))"
  by (rule name2id_no_fault)

text \<open>
  C33: after a successful create with the sentinel id, a lookup by the stored name with
  no fault finds the new id, when no earlier party's name matches it.
\<close>

theorem party_create_then_name2id:
  assumes "sql_wf c" and "party_id p = -1" and "party_db_sql_create p c = (True, p', c')" and "faults c' = []"
    and "\<forall>r\<in>set (party_tab (tables c)). \<not> name_matches cs (row_name r) (name_col (name p))"
  shows "party_db_sql_name2id cs (name_col (name p)) out c' = (True, party_id p', c')"
proof -
  have sn: "snapshot c = None" using assms(1) by (simp add: sql_wf_def)
  obtain i where p': "p' = p\<lparr>party_id := i\<rparr>"
    and tab: "party_tab (tables c') = party_tab (tables c) @
              [\<lparr>row_party_id = i, row_name = name_col (name p), row_exp = int (unat (exp p)),
                 row_item = int (unat (item p)), row_leader_id = account_id (member_at p 0),
                 row_leader_char = char_id (member_at p 0)\<rparr>]"
    using create_success [OF sn assms(3)] by blast
  have "filter (\<lambda>r. name_matches cs (row_name r) (name_col (name p))) (party_tab (tables c)) = []"
    using assms(5) by (simp add: filter_empty_iff_all)
  then show ?thesis using name2id_no_fault [OF assms(4)] tab p' by simp
qed

lemma name2id_true:
  assumes "party_db_sql_name2id cs nm out c = (True, i, c')"
  shows "map row_party_id (filter (\<lambda>r. name_matches cs (row_name r) nm) (party_tab (tables c))) = [i]"
proof -
  obtain q c1 where s: "sql_select (\<lambda>t. map row_party_id (filter (\<lambda>r. name_matches cs (row_name r) nm)
                                                              (party_tab t))) c = (q, c1)" by fastforce
  show ?thesis
    using assms s sql_select_cases [OF s]
    by (auto simp: party_db_sql_name2id_def split: option.splits list.splits if_splits)
qed


lemma sort_filter_hd_Min:
  assumes "sort xs = k # ks"
  shows "k = Min (set xs) \<and> set xs \<noteq> {}"
proof -
  have "sorted (k # ks)" using assms by (metis sorted_sort)
  moreover have "set (k # ks) = set xs" using assms by (metis set_sort)
  ultimately show ?thesis by (auto intro!: Min_eqI [symmetric])
qed

lemma key_above_trans: "key_above lk k \<Longrightarrow> k < i \<Longrightarrow> key_above lk i"
  by (cases lk) (simp_all add: key_above_def)

lemma iter_above_Min:
  assumes "k = Min {i \<in> A. key_above lk i}" and "finite A" and "{i \<in> A. key_above lk i} \<noteq> {}"
  shows "{i \<in> A. key_above (Some k) i} = {i \<in> A. key_above lk i} - {k}"
proof -
  have fin: "finite {i \<in> A. key_above lk i}" using assms(2) by simp
  have kin: "k \<in> {i \<in> A. key_above lk i}" unfolding assms(1) by (rule Min_in [OF fin assms(3)])
  have le: "k \<le> i" if "i \<in> {i \<in> A. key_above lk i}" for i
    unfolding assms(1) using fin that by (rule Min_le)
  show ?thesis
  proof (intro set_eqI iffI)
    fix i assume i: "i \<in> {i \<in> A. key_above (Some k) i}"
    then have "k < i" by (simp add: key_above_def)
    with i kin key_above_trans [of lk k i] show "i \<in> {i \<in> A. key_above lk i} - {k}" by auto
  next
    fix i assume i: "i \<in> {i \<in> A. key_above lk i} - {k}"
    then have "k < i" using le [of i] by auto
    with i show "i \<in> {i \<in> A. key_above (Some k) i}" by (simp add: key_above_def)
  qed
qed

text \<open>
  The cursor loop terminates, and with no fault it yields every party id above the start
  key exactly once, in increasing order.
\<close>

lemma party_iter_all_spec:
  "faults c = [] \<Longrightarrow>
   party_iter_all lk c = (sorted_list_of_set {i \<in> set (map row_party_id (party_tab (tables c))). key_above lk i}, c)"
proof (induction lk c rule: party_iter_all.induct)
  case (1 lk c)
  let ?ids = "map row_party_id (party_tab (tables c))"
  let ?S = "{i \<in> set ?ids. key_above lk i}"
  have nx: "party_iter_next lk c =
      (case sort (filter (key_above lk) ?ids) of [] \<Rightarrow> (None, c) | k # _ \<Rightarrow> (Some k, c))"
    using "1.prems" by (simp add: party_iter_next_def sql_select_no_fault split: list.splits)
  show ?case
  proof (cases "sort (filter (key_above lk) ?ids)")
    case Nil
    then have "?S = {}" by (metis (mono_tags, lifting) empty_Collect_eq filter_empty_iff_all set_empty2 set_sort)
    then have e: "sorted_list_of_set ?S = []" by (simp only: sorted_list_of_set_empty)
    show ?thesis
      by (subst party_iter_all.simps) (unfold nx Nil e, simp)
  next
    case (Cons k ks)
    have set_eq: "set (filter (key_above lk) ?ids) = ?S" by auto
    from sort_filter_hd_Min [OF Cons] set_eq have k: "k = Min ?S" and ne: "?S \<noteq> {}" by auto
    have nk: "party_iter_next lk c = (Some k, c)" using nx Cons by simp
    have rest: "party_iter_all (Some k) c = (sorted_list_of_set {i \<in> set ?ids. key_above (Some k) i}, c)"
      by (rule "1.IH" [OF nk [symmetric] refl "1.prems"])
    have seteq: "{i \<in> set ?ids. key_above (Some k) i} = ?S - {k}"
      using ne by (intro iter_above_Min [OF k]) auto
    have fin: "finite ?S" by simp
    have e0: "sorted_list_of_set ?S = Min ?S # sorted_list_of_set (?S - {Min ?S})"
      using fin ne by (rule sorted_list_of_set_nonempty)
    have e: "sorted_list_of_set ?S = k # sorted_list_of_set {i \<in> set ?ids. key_above (Some k) i}"
      unfolding seteq using e0 k by simp
    show ?thesis
      by (subst party_iter_all.simps) (unfold nk e, simp only: prod.case option.case rest Let_def)
  qed
qed


lemma sql_wf_ids:
  "sql_wf c \<longleftrightarrow> distinct (map row_party_id (party_tab (tables c))) \<and> 0 < auto_inc c \<and>
                (\<forall>i\<in>set (map row_party_id (party_tab (tables c))). i < auto_inc c) \<and> snapshot c = None"
  by (auto simp: sql_wf_def)

lemma tosql_wf:
  assumes wf: "sql_wf c" and res: "mmo_party_tosql flag index p c = (r, p', c')"
  shows "sql_wf c'"
proof -
  have sn: "snapshot c = None" using wf by (simp add: sql_wf_def)
  note tc = tosql_cases [OF sn res]
  show ?thesis
  proof (cases r)
    case False
    with tc wf show ?thesis by (fastforce simp: sql_wf_ids)
  next
    case True
    then obtain c1 c2 where t1: "tables c1 = tables c" "auto_inc c1 = auto_inc c"
      and bd: "tosql_body flag index p c1 = (True, p', c2)" and t2: "tables c' = tables c2" "auto_inc c' = auto_inc c2"
      using tc by blast
    note bc = tosql_body_cases [OF bd]
    show ?thesis
    proof (cases "has_flag flag PS_CREATE")
      case False
      with bc t1 t2 tc wf show ?thesis by (simp add: sql_wf_ids)
    next
      case cr: True
      then obtain c3 where c3: "tosql_create index p c1 = (True, p', c3)"
        and t3: "tables c2 = party_updates flag index p' (tables c3)" and a3: "auto_inc c2 = auto_inc c3"
        using bc by blast
      from tosql_create_cases [OF c3] obtain i where
        fresh: "i \<notin> set (map row_party_id (party_tab (tables c1)))"
        and ai: "auto_inc c3 = max (auto_inc c1) (i + 1)"
        and tab: "map row_party_id (party_tab (tables c3)) = map row_party_id (party_tab (tables c1)) @ [i]"
        by auto
      show ?thesis
        using wf fresh ai tab t1 t2 t3 a3 tc by (auto simp: sql_wf_ids)
    qed
  qed
qed

lemma remove_wf:
  assumes wf: "sql_wf c" and res: "party_db_sql_remove pid c = (r, c')"
  shows "sql_wf c'"
proof -
  have sn: "snapshot c = None" using wf by (simp add: sql_wf_def)
  from party_remove_cases [OF sn res] wf show ?thesis
    by (auto simp: sql_wf_def detach_members_def delete_party_def distinct_map_filter)
qed

lemma select_wf: "sql_wf c \<Longrightarrow> sql_select q c = (v, c') \<Longrightarrow> sql_wf c'"
  by (drule sql_select_cases) (simp add: sql_wf_def)

lemma call_wf:
  assumes "sql_wf c" and "party_db_sql_call op (db, c) = (res, db', c')"
  shows "sql_wf c'"
proof (cases op)
  case (PCreate p)
  then show ?thesis using assms tosql_wf
    by (auto simp: party_db_sql_create_def split: prod.splits)
next
  case (PRemove pid)
  then show ?thesis using assms remove_wf by (auto split: prod.splits)
next
  case (PSave p flag index)
  then show ?thesis using assms tosql_wf
    by (auto simp: party_db_sql_save_def split: prod.splits)
next
  case (PLoad pid)
  then show ?thesis using assms fromsql_cases
    by (auto simp: party_db_sql_load_def sql_wf_def split: prod.splits)
next
  case (PName2id nm out)
  then show ?thesis using assms select_wf
    by (auto simp: party_db_sql_name2id_def split: prod.splits option.splits if_splits list.splits)
qed (use assms in auto)

text \<open>
  C35: every reachable store keeps party ids unique, below a positive
  \<open>AUTO_INCREMENT\<close> counter, with no transaction left open, under every sequence of calls
  and faults.
\<close>

theorem party_reachable_wf:
  "party_reachable s \<Longrightarrow> sql_wf (snd s)"
proof (induction rule: party_reachable.induct)
  case (init cs fs)
  then show ?case by (simp add: sql_wf_def)
next
  case (step s op res s')
  then show ?case using call_wf by (metis prod.collapse)
qed


end
