(* ===== verification/PartyScenarios.thy ===== *)
theory PartyScenarios
  imports PartySql
begin

text \<open>
  Concrete stores and parties for the party backend: a store with one character and no
  party, the same store with party 1, and a party to create. On them the findings are
  evaluated and the properties of PartySql are applied at concrete inputs.
\<close>

abbreviation ex_conn :: "bool list \<Rightarrow> sql_conn" where
  "ex_conn fs \<equiv> \<lparr>tables = \<lparr>party_tab = [], char_tab = [\<lparr>ch_account_id = 2000000, ch_char_id = 150000, ch_party_id = 0\<rparr>]\<rparr>,
                 auto_inc = 1, snapshot = None, faults = fs\<rparr>"

abbreviation ex_party :: party where
  "ex_party \<equiv> \<lparr>party_id = -1, name = ''Heroes'', exp = 1, item = 2,
                member = \<lparr>account_id = 2000000, char_id = 150000, leader = True\<rparr> # replicate 11 zero_member\<rparr>"

abbreviation ex_conn1 :: "bool list \<Rightarrow> sql_conn" where
  "ex_conn1 fs \<equiv> \<lparr>tables = \<lparr>party_tab = [\<lparr>row_party_id = 1, row_name = ''Heroes'', row_exp = 1, row_item = 2,
                                         row_leader_id = 2000000, row_leader_char = 150000\<rparr>],
                               char_tab = [\<lparr>ch_account_id = 2000000, ch_char_id = 150000, ch_party_id = 1\<rparr>]\<rparr>,
                  auto_inc = 2, snapshot = None, faults = fs\<rparr>"

text \<open>Evaluation rules for the operations on these stores.\<close>

lemmas party_eval = party_db_sql_create_def mmo_party_tosql_def tosql_body_def tosql_create_def when_flag_def
  sql_start_transaction_def sql_finish_def sql_exec_def sql_insert_party_def sql_fault_def member_at_def
  upd_addmember_def upd_basic_def create_flags name_col_def NAME_LENGTH_def Let_def



theorem party_save_atomic_witness:
  "fst (snd (mmo_party_tosql PS_BASIC 0 (ex_party\<lparr>party_id := 1\<rparr>) (ex_conn1 []))) = ex_party\<lparr>party_id := 1\<rparr>"
  using party_save_atomic [of "ex_conn1 []" PS_BASIC 0 "ex_party\<lparr>party_id := 1\<rparr>"
      "fst (mmo_party_tosql PS_BASIC 0 (ex_party\<lparr>party_id := 1\<rparr>) (ex_conn1 []))"
      "fst (snd (mmo_party_tosql PS_BASIC 0 (ex_party\<lparr>party_id := 1\<rparr>) (ex_conn1 [])))"
      "snd (snd (mmo_party_tosql PS_BASIC 0 (ex_party\<lparr>party_id := 1\<rparr>) (ex_conn1 [])))"]
  by (simp add: has_flag_def PS_BASIC_def PS_CREATE_def)

theorem party_tosql_fail_atomic_witness:
  "tables (snd (snd (mmo_party_tosql PS_BASIC 0 (ex_party\<lparr>party_id := 1\<rparr>) (ex_conn1 [False, True]))))
     = tables (ex_conn1 [])"
  using party_tosql_fail_atomic [of "ex_conn1 [False, True]" PS_BASIC 0 "ex_party\<lparr>party_id := 1\<rparr>"
      "fst (snd (mmo_party_tosql PS_BASIC 0 (ex_party\<lparr>party_id := 1\<rparr>) (ex_conn1 [False, True])))"
      "snd (snd (mmo_party_tosql PS_BASIC 0 (ex_party\<lparr>party_id := 1\<rparr>) (ex_conn1 [False, True])))"]
  by (simp add: party_eval has_flag_def PS_BASIC_def PS_CREATE_def PS_LEADER_def PS_ADDMEMBER_def PS_DELMEMBER_def)

theorem party_save_no_faults_witness:
  "fst (mmo_party_tosql PS_BASIC 0 (ex_party\<lparr>party_id := 1\<rparr>) (ex_conn1 []))"
  using party_save_no_faults [of "ex_conn1 []" "ex_party\<lparr>party_id := 1\<rparr>" PS_BASIC 0]
  by (simp add: has_flag_def PS_BASIC_def PS_CREATE_def)

theorem party_create_collision_witness:
  "\<not> fst (party_db_sql_create (ex_party\<lparr>party_id := 1\<rparr>) (ex_conn1 []))"
  using party_create_collision [of "ex_conn1 []" "ex_party\<lparr>party_id := 1\<rparr>"
      "fst (party_db_sql_create (ex_party\<lparr>party_id := 1\<rparr>) (ex_conn1 []))"
      "fst (snd (party_db_sql_create (ex_party\<lparr>party_id := 1\<rparr>) (ex_conn1 [])))"
      "snd (snd (party_db_sql_create (ex_party\<lparr>party_id := 1\<rparr>) (ex_conn1 [])))"]
  by simp


theorem party_remove_spec_witness:
  "party_tab (tables (snd (party_db_sql_remove 1 (ex_conn1 [])))) = []"
  using party_remove_spec [of "ex_conn1 []" 1 "fst (party_db_sql_remove 1 (ex_conn1 []))"
      "snd (party_db_sql_remove 1 (ex_conn1 []))"]
  by (simp add: party_db_sql_remove_def sql_start_transaction_def sql_exec_def sql_finish_def
      detach_members_def delete_party_def)

theorem party_remove_absent_witness:
  "fst (party_db_sql_remove 9 (ex_conn1 []))"
  using party_remove_absent [of "ex_conn1 []" 9] by simp

theorem party_name2id_spec_witness:
  "party_db_sql_name2id False ''heroes'' 0 (ex_conn1 []) = (True, 1, ex_conn1 [])"
  using party_name2id_spec [of "ex_conn1 []" False "''heroes''" 0]
  by (simp add: name_matches_def ascii_lower_def char_of_def bit_simps)


theorem party_save_then_load_witness:
  "fst (party_db_sql_load 1 (snd (snd (party_db_sql_save (ex_party\<lparr>party_id := 1, name := ''Rogues''\<rparr>) PS_BASIC 0 (ex_conn1 [])))))"
proof -
  let ?p = "ex_party\<lparr>party_id := 1, name := ''Rogues''\<rparr>"
  have s: "party_db_sql_save ?p PS_BASIC 0 (ex_conn1 []) =
           (True, fst (snd (party_db_sql_save ?p PS_BASIC 0 (ex_conn1 []))), snd (snd (party_db_sql_save ?p PS_BASIC 0 (ex_conn1 []))))"
    by (simp add: party_db_sql_save_def party_eval basic_flags)
  have f: "faults (snd (snd (party_db_sql_save ?p PS_BASIC 0 (ex_conn1 [])))) = []"
    by (simp add: party_db_sql_save_def party_eval basic_flags)
  have "filter (\<lambda>r. row_party_id r = party_id ?p) (party_tab (tables (ex_conn1 []))) =
        [\<lparr>row_party_id = 1, row_name = ''Heroes'', row_exp = 1, row_item = 2,
          row_leader_id = 2000000, row_leader_char = 150000\<rparr>]" by simp
  from party_save_then_load [OF _ s f this] show ?thesis by (auto simp: NAME_LENGTH_def)
qed

theorem party_create_then_name2id_witness:
  "party_db_sql_name2id True ''Heroes'' 0 (snd (snd (party_db_sql_create ex_party (ex_conn [])))) =
     (True, 1, snd (snd (party_db_sql_create ex_party (ex_conn []))))"
proof -
  have c: "party_db_sql_create ex_party (ex_conn []) =
     (True, fst (snd (party_db_sql_create ex_party (ex_conn []))), snd (snd (party_db_sql_create ex_party (ex_conn []))))"
    by (simp add: party_eval)
  have f: "faults (snd (snd (party_db_sql_create ex_party (ex_conn [])))) = []" by (simp add: party_eval)
  have i: "party_id (fst (snd (party_db_sql_create ex_party (ex_conn [])))) = 1" by (simp add: party_eval)
  have n: "name_col ''Heroes'' = ''Heroes''" by (simp add: name_col_def NAME_LENGTH_def)
  from party_create_then_name2id [OF _ _ c f, of True 0] show ?thesis
    by (simp add: sql_wf_def i n)
qed

theorem party_reachable_wf_witness:
  "sql_wf (snd (snd (party_db_sql_call (PCreate ex_party) (party_db_sql, ex_conn []))))"
proof -
  have "party_reachable (party_db_sql, ex_conn [])" by (rule party_reachable.init)
  then have "party_reachable (snd (party_db_sql_call (PCreate ex_party) (party_db_sql, ex_conn [])))"
    by (rule party_reachable.step [where op = "PCreate ex_party"
          and res = "fst (party_db_sql_call (PCreate ex_party) (party_db_sql, ex_conn []))"]) simp
  then show ?thesis by (rule party_reachable_wf)
qed

end
