(* ===== verification/Spec2Isabelle.thy ===== *)
theory Spec2Isabelle
  imports AccountTxt PartyScenarios
begin

text \<open>
  \<^bold>\<open>A verification development of the eAthena persistence layer\<close>

  \<^bold>\<open>The program.\<close> Two backends implement the persistence interface of the login and
  character servers: src/login/account_txt.c keeps accounts in an in-memory map that it
  loads from a flat file at start and writes back (whole) on a write-behind schedule;
  src/char/partydb_sql.c keeps parties in two SQL tables and runs every multi-statement
  operation in a transaction. Each backend exposes its operations through a vtable
  (\<open>account_db_txt()\<close>, \<open>party_db_sql()\<close>); the account backend is also entered from the
  timer callback it registers.

  \<^bold>\<open>Theories and what they model.\<close>
  \<^item> Prelude: named theorem collections, the tab/newline/NUL characters, generic list and
    association-list lemmas.
  \<^item> CLib: the C library and strlib functions the sources call, at the formats they use:
    \<open>sscanf("%d")\<close>/\<open>strtol\<close> (\<open>scan_int\<close>, \<open>strtol\<close>), \<open>strtoul\<close> into a 32-bit word,
    \<open>%d\<close> into an \<open>int\<close> (\<open>scan_d\<close>), the \<open>int\<close> wrap \<open>int32\<close>,
    \<open>printf("%d")\<close>/\<open>"%u"\<close> (\<open>show_int\<close>, \<open>show_u32\<close>), \<open>safestrncpy\<close>, \<open>sv_split\<close> on tabs
    (\<open>split_tab\<close>), \<open>fgets\<close> on the 2048-byte line buffer (\<open>fgets_lines\<close>); \<open>NAME_LENGTH\<close>.
  \<^item> DBMap: the integer-keyed \<open>DBMap\<close> of common/db.c as an association list with distinct
    keys, refined to the map \<open>map_of\<close> (\<open>idb_get\<close>, \<open>idb_put\<close>, \<open>idb_remove\<close>, iteration).
  \<^item> AccountCodec: \<open>struct mmo_account\<close> as a record (\<open>level\<close> and \<open>state\<close> as 32-bit words),
    \<open>mmo_auth_fromstr\<close> with its four (version, field count) layouts (\<open>auth_layout\<close>) and the
    registry loop with both \<open>sscanf\<close> formats (\<open>scan_reg\<close>, \<open>scan_void\<close>, \<open>parse_regs\<close>), and
    \<open>mmo_auth_tostr\<close>.
  \<^item> AccountTxt: \<open>struct AccountDB_TXT\<close> plus the content of the account file as the world
    \<open>txt_world\<close>; \<open>mmo_auth_sync\<close> (dump and counter reset), the timer callback,
    \<open>account_db_txt_init\<close> line by line (\<open>init_line\<close>: comments, version lines, the
    \<open>%newid%\<close> marker, records), create, remove, save, both loads and free, the vtable as
    the operation datatype \<open>account_op\<close> with dispatch \<open>account_db_txt\<close>, and the state
    machine \<open>txt_step\<close>/\<open>txt_reachable\<close> (and \<open>txt_reachable_io\<close> with a working file
    system). Whether \<open>lock_fopen\<close> succeeds is the argument
    \<open>io\<close> of each operation that flushes.
  \<^item> SqlStore: the MySQL side (not under src/): the party table and the character table's
    party column as row lists, the \<open>AUTO_INCREMENT\<close> counter outside the transaction
    snapshot, \<open>START TRANSACTION\<close>/\<open>COMMIT\<close>/\<open>ROLLBACK\<close>, and an explicit fault schedule
    that decides, statement by statement, whether the server reports an error.
  \<^item> PartySql: \<open>struct party\<close> (option bit-fields as \<open>1 word\<close> and \<open>2 word\<close>),
    \<open>mmo_party_tosql\<close> with its five flag-selected steps, \<open>mmo_party_fromsql\<close>, create, remove,
    save (returning the structure \<open>mmo_party_tosql\<close> writes through the cast pointer),
    load, name2id, the iterator's cursor loop (\<open>party_iter_all\<close>, a terminating
    \<open>function\<close>), the vtable (\<open>party_op\<close>, \<open>party_db_sql_call\<close>), the reachable stores, and
    the abstract contract of a save (\<open>party_updates\<close>).
  \<^item> PartyScenarios: concrete stores and parties on which the party findings are evaluated
    and the party properties are applied.

  \<^bold>\<open>What is proved.\<close>
  \<^item> Codec (AccountCodec): the print/parse round trip for well-formed accounts (C1), and
    its general form for entries with empty values, which lose the rest of the registry
    (C20).
  \<^item> Account backend, operation by operation (AccountTxt): a functional specification of
    each operation on every branch, errors included (C4--C9, C12), with the counter's
    wrap at \<open>INT_MAX\<close> stated in C4; write-behind and timer behaviour (C10, C11, C18, C19);
    cross-operation properties (C17 keys after create, C21 lookup by name after create).
  \<^item> Account backend as a state machine: the structural invariant on all reachable worlds
    by rule induction (C2), preservation of counter freshness below \<open>INT_MAX\<close> (C3), the
    counter bounds of \<open>init\<close> (C15) and first-record-wins while loading (C37), the
    write-behind bound with a working file system (C34).
  \<^item> Durability: \<open>init\<close> on the dump rebuilds the state (C22), and \<open>free\<close> then \<open>init\<close>
    restores it (C38).
  \<^item> Account findings: the counter equal to a loaded id blocks every create (C14); the
    counter wraps to \<open>INT_MIN\<close> (C13); an account with a NUL sex is lost by a flush and
    restart (C16).
  \<^item> Party backend (PartySql): atomicity as a refinement of the abstract save contract
    under every fault schedule (C23, C24); success without faults (C25); create, collision
    and load (C26--C28); save then load (C29); remove (C30, C31); name2id (C32, C33); the
    store invariant on all reachable stores (C35); the stale id left by a failed create
    (C36).
  \<^item> Across both backends: remove then load reports not found (C39, below).

  \<^bold>\<open>Integers, bounds and fuel.\<close> The C \<open>int\<close> fields (\<open>account_id\<close>, \<open>logincount\<close>,
  \<open>next_account_id\<close>) are HOL integers kept in the 32-bit range: \<open>strtol\<close> saturates at the
  64-bit \<open>long\<close> limits, a value stored into an \<open>int\<close> is reduced modulo \<open>2^32\<close>
  (\<open>int32\<close>, equal to \<open>sint\<close> of the 32-bit word), and so are the increments at lines 149 and
  204, which is what the compiled code does (the C standard leaves signed overflow
  undefined). No fuel is used: every loop is structural recursion or a \<open>function\<close> with a
  measure (the registry loop by the slots left and the text left, the \<open>fgets\<close> loop by
  the input left, the party cursor by the keys above the last one). The line buffer is
  the source's 2048 bytes; the durability theorem assumes lines shorter than it and a
  counter within the \<open>int\<close> range.

  \<^bold>\<open>Not modelled.\<close> The timer subsystem beyond whether the callback is registered (an
  external scheduler); logging (\<open>ShowError\<close>, \<open>Sql_ShowDebug\<close>: output only); memory
  allocation (implicit; zeroed allocation is \<open>zero_account\<close>/\<open>zero_party\<close>); the overrun
  of \<open>buf[2048]\<close> by \<open>sprintf\<close> for lines longer than it (undefined behaviour; excluded by
  the durability theorem's hypothesis); the wrap of the dirty counter
  \<open>auths_before_save\<close>, which needs more than \<open>2^31\<close> consecutive saves whose flushes all
  fail and is left unbounded, so C2 and C19 hold up to that point; the \<open>(int)\<close> cast of the
  insert id at line 128, taken as the identity (the store issues ids from its counter,
  and ids above \<open>INT_MAX\<close> are outside the model); the SQL text of the queries and escaping
  (values are stored as bound); the server's row order (taken as insertion order); the
  case-insensitive collation, modelled as ASCII case folding; the cursor of the party
  iterator, which lives in char/charserverdb_sql.c and is modelled from the
  specification; \<open>p->member[index]\<close> outside the array, undefined in C and read as a zero
  member; party member fields other than the two ids, which this backend neither stores
  nor loads; the NULL checks on pointer arguments.
\<close>

text \<open>
  C39: the specification's property "remove(id) followed by load(id) reports not-found"
  holds for both backends: after a successful account remove, load by id reports not
  found with a zeroed buffer; after a successful party remove, a load that meets no
  fault reports not found with a zeroed party.
\<close>

theorem remove_then_load_not_found:
  "(account_db_txt_remove io aid w = (True, w') \<longrightarrow> account_db_txt_load_num aid w' = (False, zero_account)) \<and>
   (snapshot c = None \<and> pid \<noteq> 0 \<and> party_db_sql_remove pid c = (True, c') \<and> faults c' = [] \<longrightarrow>
      party_db_sql_load pid c' = (False, zero_party, c'))"
proof (intro conjI impI)
  assume "account_db_txt_remove io aid w = (True, w')"
  from remove_cases [OF this] show "account_db_txt_load_num aid w' = (False, zero_account)"
    by (auto simp: account_db_txt_load_num_def sync_simps)
next
  assume h: "snapshot c = None \<and> pid \<noteq> 0 \<and> party_db_sql_remove pid c = (True, c') \<and> faults c' = []"
  then have "tables c' = the (delete_party pid (the (detach_members pid (tables c))))"
    using party_remove_cases by blast
  then have "filter (\<lambda>r. row_party_id r = pid) (party_tab (tables c')) = []"
    by (auto simp: delete_party_def detach_members_def filter_empty_iff_all)
  with h show "party_db_sql_load pid c' = (False, zero_party, c')"
    by (simp add: party_db_sql_load_def mmo_party_fromsql_def sql_select_no_fault)
qed

theorem remove_then_load_not_found_witness:
  "account_db_txt_load_num 2000000
     (snd (account_db_txt_remove False 2000000 (snd (account_db_txt_create False zero_account txt_fresh_world))))
     = (False, zero_account) \<and>
   party_db_sql_load 1 (snd (party_db_sql_remove 1 (ex_conn1 []))) = (False, zero_party, snd (party_db_sql_remove 1 (ex_conn1 [])))"
proof -
  let ?w = "snd (account_db_txt_create False zero_account txt_fresh_world)"
  have a: "account_db_txt_remove False 2000000 ?w = (True, snd (account_db_txt_remove False 2000000 ?w))"
    by (simp add: txt_eval)
  have p: "party_db_sql_remove 1 (ex_conn1 []) = (True, snd (party_db_sql_remove 1 (ex_conn1 [])))"
    by (simp add: party_db_sql_remove_def sql_start_transaction_def sql_exec_def sql_finish_def
        detach_members_def delete_party_def)
  have f: "faults (snd (party_db_sql_remove 1 (ex_conn1 []))) = []"
    by (simp add: party_db_sql_remove_def sql_start_transaction_def sql_exec_def sql_finish_def
        detach_members_def delete_party_def)
  show ?thesis
    using remove_then_load_not_found [of False 2000000 ?w "snd (account_db_txt_remove False 2000000 ?w)"
        "ex_conn1 []" 1 "snd (party_db_sql_remove 1 (ex_conn1 []))"] a p f
    by simp
qed

end
